(* ===== verification/KB_Prelude.thy ===== *)
theory KB_Prelude
  imports Main "HOL-Library.AList"
begin

text \<open>
  Shared vocabulary of the keyboard-binding development. A Python \<open>dict\<close> is an
  insertion-ordered association list: \<open>map_of\<close> is \<open>d.get(k)\<close>,
  \<open>AList.update\<close> is \<open>d[k] = v\<close> (an existing key keeps its position, a new key is
  appended at the end) and \<open>AList.delete\<close> is \<open>d.pop(k)\<close>. The lemmas below are
  the facts about these operations that the component theories share; those about
  updating a key that is already present are collected in \<open>dict_simps\<close>.
  A callback run that may raise is an \<open>outcome\<close>: \<open>Inl (f, s)\<close> when callback
  \<open>f\<close> raised in state \<open>s\<close>, \<open>Inr s\<close> when every callback returned.
\<close>

type_synonym key = string

type_synonym ('k, 'v) dict = "('k \<times> 'v) list"

type_synonym ('cb, 'a) outcome = "('cb \<times> 'a) + 'a"

text \<open>Python exceptions the model raises: \<open>TypeError\<close> for subscripting \<open>None\<close>,
  \<open>OSError\<close> for a file that cannot be opened, \<open>IndexError\<close> for a list index out
  of range, \<open>RuntimeError\<close> for a dict whose size changed while it was iterated.\<close>

datatype py_error = TypeError | OSError | IndexError | RuntimeError

named_theorems dict_simps "facts about updating a key already present in a dict"

abbreviation dict_inv :: "('k, 'v) dict \<Rightarrow> bool" where
  "dict_inv d \<equiv> distinct (map fst d)"

text \<open>The state an outcome ends in, whether a callback raised or not (the source
  mutates in place, so the writes made before an exception persist).\<close>

definition outcome_state :: "('cb, 'a) outcome \<Rightarrow> 'a" where
  "outcome_state r = (case r of Inl (f, s) \<Rightarrow> s | Inr s \<Rightarrow> s)"

lemma outcome_state_simps [simp]:
  "outcome_state (Inl (f, s)) = s" "outcome_state (Inr s) = s"
  by (simp_all add: outcome_state_def)


lemma map_of_update_same [simp]: "map_of (AList.update k v d) k = Some v"
  by (simp add: update_conv')

lemma map_of_update_other [simp]: "k' \<noteq> k \<Longrightarrow> map_of (AList.update k v d) k' = map_of d k'"
  by (simp add: update_conv')

lemma map_of_delete_same [simp]: "map_of (AList.delete k d) k = None"
  by (simp add: delete_conv')

lemma update_keys_present [dict_simps]:
  "map_of d k \<noteq> None \<Longrightarrow> map fst (AList.update k v d) = map fst d"
  by (auto simp add: update_keys map_of_eq_None_iff)

lemma dict_inv_update [dict_simps]: "dict_inv d \<Longrightarrow> dict_inv (AList.update k v d)"
  by (rule distinct_update)

lemma dict_inv_delete [dict_simps]: "dict_inv d \<Longrightarrow> dict_inv (AList.delete k d)"
  by (rule distinct_delete)

text \<open>Two writes to keys that are both present commute as lists, not only as maps:
  neither write moves a key.\<close>

lemma update_commute_present:
  assumes "k \<noteq> k'" "k \<in> fst ` set d" "k' \<in> fst ` set d"
  shows "AList.update k v (AList.update k' v' d) = AList.update k' v' (AList.update k v d)"
  using assms by (induction d) auto

lemma update_present_twice [dict_simps]:
  "AList.update k v (AList.update k v' d) = AList.update k v d"
  by (rule update_last)

lemma update_same_value [dict_simps]:
  "map_of d k = Some v \<Longrightarrow> AList.update k v d = d"
  by (rule update_triv)

lemma map_of_Some_in_keys: "map_of d k = Some v \<Longrightarrow> k \<in> fst ` set d"
  by (auto dest: map_of_SomeD intro: rev_image_eqI)

lemma update_map_same:
  "map_of d k = Some x \<Longrightarrow> g x' = g x \<Longrightarrow>
   map (\<lambda>(k', v). (k', g v)) (AList.update k x' d) = map (\<lambda>(k', v). (k', g v)) d"
  by (induction d) (auto split: if_splits)

lemma map_of_map_keyed:
  "map_of (map (\<lambda>(k, v). (k, f k v)) d) k = map_option (f k) (map_of d k)"
  by (induction d) auto

text \<open>Mapping over the values of a dict leaves its keys alone, in the forms the
  simplifier produces from \<open>map fst\<close> and \<open>fst ` set\<close>.\<close>

lemma fst_comp_keyed [simp]: "fst \<circ> (\<lambda>(k, v). (k, g v)) = fst"
  by (simp add: fun_eq_iff)

lemma fst_case_keyed [simp]: "(\<lambda>x. fst (case x of (k, v) \<Rightarrow> (k, g v))) = fst"
  by (simp add: fun_eq_iff split: prod.split)

lemma list_all_update:
  "\<forall>(k', v) \<in> set d. P v \<Longrightarrow> P x \<Longrightarrow> \<forall>(k', v) \<in> set (AList.update k x d). P v"
  by (induction d) auto

end
