(* ===== verification/KB_Entry.thy ===== *)
theory KB_Entry
  imports KB_Prelude
begin

text \<open>
  One registered key. The source keeps it as a five-slot list
  \<^verbatim>\<open>[mapping, is_pressed, toggle_state, toggle_enable, [heads, tails]]\<close>
  (src/Keyboard_binding.py, lines 48-49); here the slots are named fields.
  The theory holds the entry record, the callback loop \<open>__call_bind\<close> and the
  per-entry part of \<open>update\<close> (lines 307-321), which reads and writes only the
  resolved entry, and the facts about that state machine over one poll and over a
  sequence of polls.
\<close>

section \<open>The entry record\<close>

text \<open>Callbacks are opaque values of type \<open>'cb\<close>; HOL equality on them stands for
  Python's \<open>==\<close> on callables. The press flag and the latch hold only 0 or 1 in the
  source, so they are booleans.\<close>

record 'cb key_entry =
  button_mapping :: key
  is_pressed :: bool
  toggle_state :: bool
  toggle_enable :: bool
  head_funcs :: "'cb list"
  tail_funcs :: "'cb list"

definition new_entry :: "key \<Rightarrow> bool \<Rightarrow> 'cb key_entry" where
  "new_entry remap toggle =
     \<lparr>button_mapping = remap, is_pressed = False, toggle_state = False,
      toggle_enable = toggle, head_funcs = [], tail_funcs = []\<rparr>"

section \<open>Calling a callback list\<close>

text \<open>\<open>__call_bind\<close> calls the callbacks of one list front to back. \<open>ok f\<close> says
  whether calling \<open>f\<close> returns; a callback that raises ends the loop, and the
  exception leaves \<open>update\<close>. The trace \<open>tr\<close> records every call made.\<close>

fun call_bind :: "('cb \<Rightarrow> bool) \<Rightarrow> 'cb list \<Rightarrow> 'cb list \<Rightarrow> ('cb, 'cb list) outcome" where
  "call_bind ok [] tr = Inr tr"
| "call_bind ok (f # fs) tr = (if ok f then call_bind ok fs (tr @ [f]) else Inl (f, tr @ [f]))"

section \<open>One poll of one entry\<close>

text \<open>The head branch of \<open>update\<close> (lines 312-313 and 315-316): call the head
  list, then set the latch; the latch is not set if a head callback raised.\<close>

definition fire_head ::
  "('cb \<Rightarrow> bool) \<Rightarrow> 'cb key_entry \<Rightarrow> 'cb list \<Rightarrow> ('cb, 'cb key_entry \<times> 'cb list) outcome" where
  "fire_head ok e tr =
     (case call_bind ok (head_funcs e) tr of
        Inl (f, tr') \<Rightarrow> Inl (f, e, tr')
      | Inr tr' \<Rightarrow> Inr (e\<lparr>toggle_state := True\<rparr>, tr'))"

text \<open>Lines 307-321 on the resolved entry \<open>e\<close>, given the sample \<open>p\<close> of
  \<open>keyboard.is_pressed(k)\<close>. On release the latch is cleared before the tail list
  is called (lines 320-321).\<close>

definition poll_entry ::
  "('cb \<Rightarrow> bool) \<Rightarrow> bool \<Rightarrow> 'cb key_entry \<Rightarrow> 'cb list \<Rightarrow> ('cb, 'cb key_entry \<times> 'cb list) outcome" where
  "poll_entry ok p e tr =
     (if p then
        (let e1 = e\<lparr>is_pressed := True\<rparr> in
         if toggle_enable e1 then
           (if \<not> toggle_state e1 then fire_head ok e1 tr else Inr (e1, tr))
         else fire_head ok e1 tr)
      else
        (let e1 = e\<lparr>is_pressed := False\<rparr> in
         if toggle_state e1 then
           (let e2 = e1\<lparr>toggle_state := False\<rparr> in
            case call_bind ok (tail_funcs e2) tr of
              Inl (f, tr') \<Rightarrow> Inl (f, e2, tr')
            | Inr tr' \<Rightarrow> Inr (e2, tr'))
         else Inr (e1, tr)))"

text \<open>The state machine of the specification (section 4.3) for one entry when no
  callback raises: the press flag and the latch both become the sample, and the calls
  are the head list on a press unless an edge-mode latch is already set, and the tail
  list on a release that finds the latch set.\<close>

definition entry_next :: "bool \<Rightarrow> 'cb key_entry \<Rightarrow> 'cb key_entry" where
  "entry_next p e = e\<lparr>is_pressed := p, toggle_state := p\<rparr>"

definition entry_calls :: "bool \<Rightarrow> 'cb key_entry \<Rightarrow> 'cb list" where
  "entry_calls p e =
     (if p then (if toggle_enable e \<and> toggle_state e then [] else head_funcs e)
      else (if toggle_state e then tail_funcs e else []))"

text \<open>Repeated polls of one entry by the driver loop, stopping at the first raised
  callback.\<close>

fun run_entry ::
  "('cb \<Rightarrow> bool) \<Rightarrow> bool list \<Rightarrow> 'cb key_entry \<Rightarrow> 'cb list \<Rightarrow> ('cb, 'cb key_entry \<times> 'cb list) outcome" where
  "run_entry ok [] e tr = Inr (e, tr)"
| "run_entry ok (p # ps) e tr =
     (case poll_entry ok p e tr of Inl x \<Rightarrow> Inl x | Inr (e', tr') \<Rightarrow> run_entry ok ps e' tr')"

text \<open>The invariant of the registry's entries: a latch is set only while the entry's
  press flag is set.\<close>

definition latch_inv :: "(key, 'cb key_entry) dict \<Rightarrow> bool" where
  "latch_inv ks \<longleftrightarrow> (\<forall>(k, e) \<in> set ks. toggle_state e \<longrightarrow> is_pressed e)"

text \<open>A sample entry for the witnesses: key \<open>a\<close> bound to head 1 and tail 2.\<close>

definition demo_entry :: "bool \<Rightarrow> nat key_entry" where
  "demo_entry tg = \<lparr>button_mapping = ''a'', is_pressed = False, toggle_state = False,
     toggle_enable = tg, head_funcs = [1], tail_funcs = [2]\<rparr>"

section \<open>Facts about one poll\<close>

lemma call_bind_all_ok [simp]: "list_all ok fs \<Longrightarrow> call_bind ok fs tr = Inr (tr @ fs)"
  by (induction fs arbitrary: tr) auto

lemma call_bind_first_raise:
  "list_all ok xs \<Longrightarrow> \<not> ok f \<Longrightarrow> call_bind ok (xs @ f # ys) tr = Inl (f, tr @ xs @ [f])"
  by (induction xs arbitrary: tr) auto

lemma call_bind_no_raise: "call_bind (\<lambda>_. True) fs tr = Inr (tr @ fs)"
  by (induction fs arbitrary: tr) auto

lemma poll_entry_no_raise:
  "poll_entry (\<lambda>_. True) p e tr = Inr (entry_next p e, tr @ entry_calls p e)"
  by (cases p; cases "toggle_enable e"; cases "toggle_state e")
     (simp_all add: poll_entry_def fire_head_def entry_next_def entry_calls_def call_bind_no_raise Let_def)

lemma entry_next_fields [simp]:
  "is_pressed (entry_next p e) = p" "toggle_state (entry_next p e) = p"
  "button_mapping (entry_next p e) = button_mapping e" "toggle_enable (entry_next p e) = toggle_enable e"
  "head_funcs (entry_next p e) = head_funcs e" "tail_funcs (entry_next p e) = tail_funcs e"
  by (simp_all add: entry_next_def)

lemma entry_next_twice [simp]: "entry_next p (entry_next p' e) = entry_next p e"
  by (simp add: entry_next_def)

lemma poll_entry_press_edge_first:
  "toggle_enable e \<Longrightarrow> \<not> toggle_state e \<Longrightarrow> list_all ok (head_funcs e) \<Longrightarrow>
   poll_entry ok True e tr = Inr (e\<lparr>is_pressed := True, toggle_state := True\<rparr>, tr @ head_funcs e)"
  by (simp add: poll_entry_def fire_head_def)

lemma poll_entry_press_edge_held:
  "toggle_enable e \<Longrightarrow> toggle_state e \<Longrightarrow> poll_entry ok True e tr = Inr (e\<lparr>is_pressed := True\<rparr>, tr)"
  by (simp add: poll_entry_def)

lemma poll_entry_press_continuous:
  "\<not> toggle_enable e \<Longrightarrow> list_all ok (head_funcs e) \<Longrightarrow>
   poll_entry ok True e tr = Inr (e\<lparr>is_pressed := True, toggle_state := True\<rparr>, tr @ head_funcs e)"
  by (simp add: poll_entry_def fire_head_def)

lemma poll_entry_release_latched:
  "toggle_state e \<Longrightarrow> list_all ok (tail_funcs e) \<Longrightarrow>
   poll_entry ok False e tr = Inr (e\<lparr>is_pressed := False, toggle_state := False\<rparr>, tr @ tail_funcs e)"
  by (simp add: poll_entry_def)

lemma poll_entry_release_idle:
  "\<not> toggle_state e \<Longrightarrow> poll_entry ok False e tr = Inr (e\<lparr>is_pressed := False\<rparr>, tr)"
  by (simp add: poll_entry_def)

lemmas poll_entry_simps =
  poll_entry_press_edge_first poll_entry_press_edge_held poll_entry_press_continuous
  poll_entry_release_latched poll_entry_release_idle

lemma run_entry_hold_edge:
  "toggle_enable e \<Longrightarrow> toggle_state e \<Longrightarrow>
   run_entry ok (replicate n True @ ps) e tr =
   run_entry ok ps (if n = 0 then e else e\<lparr>is_pressed := True\<rparr>) tr"
  by (induction n arbitrary: e) (simp_all add: poll_entry_press_edge_held)

lemma run_entry_hold_continuous:
  "\<not> toggle_enable e \<Longrightarrow> list_all ok (head_funcs e) \<Longrightarrow>
   run_entry ok (replicate n True @ ps) e tr =
   (if n = 0 then run_entry ok ps e tr
    else run_entry ok ps (e\<lparr>is_pressed := True, toggle_state := True\<rparr>)
           (tr @ concat (replicate n (head_funcs e))))"
  by (induction n arbitrary: e tr) (simp_all add: poll_entry_press_continuous)


text \<open>Whatever happens, a poll writes only the press flag and the latch of the entry:
  the press flag becomes the sample, and the latch is set exactly when the key is
  pressed and either it was set already or the head list ran without raising. So the
  latch of an entry is never set while its press flag is clear.\<close>

lemma poll_entry_state:
  "fst (outcome_state (poll_entry ok p e tr)) =
   e\<lparr>is_pressed := p, toggle_state := p \<and> (toggle_state e \<or> \<not> isl (call_bind ok (head_funcs e) tr))\<rparr>"
  by (cases "call_bind ok (head_funcs e) tr"; cases "call_bind ok (tail_funcs e) tr";
      auto simp: poll_entry_def fire_head_def Let_def)

lemma poll_entry_latch_pressed:
  "toggle_state (fst (outcome_state (poll_entry ok p e tr))) \<Longrightarrow>
   is_pressed (fst (outcome_state (poll_entry ok p e tr)))"
  by (simp add: poll_entry_state)

lemma latch_inv_update:
  "latch_inv ks \<Longrightarrow> (toggle_state e \<longrightarrow> is_pressed e) \<Longrightarrow> latch_inv (AList.update k e ks)"
  unfolding latch_inv_def
  using list_all_update [where d = ks and P = "\<lambda>e. toggle_state e \<longrightarrow> is_pressed e" and x = e and k = k]
  by blast

lemma latch_inv_entry: "latch_inv ks \<Longrightarrow> (k, v) \<in> set ks \<Longrightarrow> toggle_state v \<Longrightarrow> is_pressed v"
  by (auto simp: latch_inv_def)

lemma latch_inv_update_same_flags:
  "latch_inv ks \<Longrightarrow> (k', v) \<in> set ks \<Longrightarrow> toggle_state e = toggle_state v \<Longrightarrow>
   is_pressed e = is_pressed v \<Longrightarrow> latch_inv (AList.update k e ks)"
  by (rule latch_inv_update) (auto simp: latch_inv_def)

lemma latch_inv_delete: "latch_inv ks \<Longrightarrow> latch_inv (AList.delete k ks)"
  by (auto simp: latch_inv_def AList.delete_eq)

section \<open>Press and release over several polls\<close>

text \<open>C3: in edge mode (\<open>toggle_enable\<close>), holding a key pressed over any number
  \<open>n + 1\<close> of polls and then releasing it calls the head list once, on the first
  pressed poll, and the tail list once, on the release poll; the entry ends released
  with its latch clear.\<close>

theorem edge_mode_press_release_entry:
  assumes "toggle_enable e" "\<not> toggle_state e"
    and "list_all ok (head_funcs e)" "list_all ok (tail_funcs e)"
  shows "run_entry ok (replicate (Suc n) True @ [False]) e tr =
         Inr (e\<lparr>is_pressed := False\<rparr>, tr @ head_funcs e @ tail_funcs e)"
  using assms by (simp add: poll_entry_simps run_entry_hold_edge)

text \<open>C4: in continuous mode, holding a key pressed over \<open>n + 1\<close> polls calls the
  head list on every one of them, and the release poll calls the tail list once.\<close>

theorem continuous_mode_press_release_entry:
  assumes "\<not> toggle_enable e"
    and "list_all ok (head_funcs e)" "list_all ok (tail_funcs e)"
  shows "run_entry ok (replicate (Suc n) True @ [False]) e tr =
         Inr (e\<lparr>is_pressed := False, toggle_state := False\<rparr>,
              tr @ concat (replicate (Suc n) (head_funcs e)) @ tail_funcs e)"
  using assms by (simp add: run_entry_hold_continuous poll_entry_simps del: replicate_Suc)


text \<open>C13: a head callback that raises in edge mode leaves the latch clear (the latch
  is set only after the whole head list returned, lines 312-313), so on the next
  pressed poll the head list is called again from its start: the callbacks before the
  raising one run once per poll for as long as the key is held.\<close>

theorem head_raise_keeps_latch_clear:
  assumes "toggle_enable e" "\<not> toggle_state e" "head_funcs e = h # hs" "\<not> ok h"
  shows "poll_entry ok True e tr = Inl (h, e\<lparr>is_pressed := True\<rparr>, tr @ [h]) \<and>
         \<not> toggle_state (e\<lparr>is_pressed := True\<rparr>) \<and>
         poll_entry ok True (e\<lparr>is_pressed := True\<rparr>) tr' = Inl (h, e\<lparr>is_pressed := True\<rparr>, tr' @ [h])"
  using assms by (simp add: poll_entry_def fire_head_def)

section \<open>Witnesses\<close>

theorem edge_mode_press_release_entry_witness:
  "toggle_enable (demo_entry True) \<and> \<not> toggle_state (demo_entry True) \<and>
   list_all (\<lambda>_. True) (head_funcs (demo_entry True)) \<and> list_all (\<lambda>_. True) (tail_funcs (demo_entry True)) \<and>
   run_entry (\<lambda>_. True) (replicate (Suc 2) True @ [False]) (demo_entry True) [] =
     Inr ((demo_entry True)\<lparr>is_pressed := False\<rparr>, [1, 2])"
  using edge_mode_press_release_entry [of "demo_entry True" "\<lambda>_. True" 2 "[]"]
  by (simp add: demo_entry_def)

theorem continuous_mode_press_release_entry_witness:
  "\<not> toggle_enable (demo_entry False) \<and>
   list_all (\<lambda>_. True) (head_funcs (demo_entry False)) \<and> list_all (\<lambda>_. True) (tail_funcs (demo_entry False)) \<and>
   run_entry (\<lambda>_. True) (replicate (Suc 2) True @ [False]) (demo_entry False) [] =
     Inr ((demo_entry False)\<lparr>is_pressed := False, toggle_state := False\<rparr>, [1, 1, 1, 2])"
  using continuous_mode_press_release_entry [of "demo_entry False" "\<lambda>_. True" 2 "[]"]
  by (simp add: demo_entry_def numeral_eq_Suc)

theorem head_raise_keeps_latch_clear_witness:
  "toggle_enable (demo_entry True) \<and> \<not> toggle_state (demo_entry True) \<and>
   head_funcs (demo_entry True) = 1 # [] \<and> \<not> (\<lambda>f. f \<noteq> (1::nat)) 1 \<and>
   poll_entry (\<lambda>f. f \<noteq> 1) True (demo_entry True) [] =
     Inl (1, (demo_entry True)\<lparr>is_pressed := True\<rparr>, [1])"
  using head_raise_keeps_latch_clear [of "demo_entry True" 1 "[]" "\<lambda>f. f \<noteq> 1" "[]" "[]"]
  by (simp add: demo_entry_def)

end
