(* ===== verification/KB_Registry.thy ===== *)
theory KB_Registry
  imports KB_Entry
begin

text \<open>
  The class \<open>keyboard_binding\<close> of src/Keyboard_binding.py: its state (the window
  title and the insertion-ordered dict \<open>self.keys\<close>), the constructor and the key and
  binding manipulation methods (lines 43-269). Every method that returns a boolean
  returns the pair of that boolean and the new object; \<open>remove_bind\<close>, which can
  raise, returns a \<open>py_error\<close> on the left. The lemmas give each method's result on
  every branch, the frame conditions the update loop relies on (no method but
  \<open>add_key\<close> and \<open>remove_key\<close> changes the keys or their order), the equivalence
  of the index loop of \<open>remove_bind\<close> with \<open>remove1\<close>, and the exchange performed by \<open>swap_binds\<close>.
\<close>

section \<open>State and constructor\<close>

record 'cb keyboard_binding =
  APP_TITLE :: string
  keys :: "(key, 'cb key_entry) dict"

text \<open>The constructor's keys, in its order: the letters, the digits 1 to 9 and 0, and
  three modifiers; each maps to itself, in edge mode, with empty lists.\<close>

definition default_keys :: "key list" where
  "default_keys =
     map (\<lambda>c. [c]) ''abcdefghijklmnopqrstuvwxyz'' @ map (\<lambda>c. [c]) ''1234567890'' @
     [''shift'', ''ctrl'', ''alt'']"

definition keyboard_binding_init :: "string \<Rightarrow> 'cb keyboard_binding" where
  "keyboard_binding_init app =
     \<lparr>APP_TITLE = app, keys = map (\<lambda>k. (k, new_entry k True)) default_keys\<rparr>"

section \<open>Key manipulation\<close>

text \<open>\<open>add_key(key, remap=None, toggle=True)\<close>: a missing or empty \<open>remap\<close> (both
  falsy in Python) maps the key to itself; the entry is overwritten in place or
  appended.\<close>

definition add_key :: "'cb keyboard_binding \<Rightarrow> key \<Rightarrow> key option \<Rightarrow> bool \<Rightarrow> 'cb keyboard_binding" where
  "add_key kb k remap toggle =
     (let r = (case remap of None \<Rightarrow> k | Some m \<Rightarrow> if m = [] then k else m)
      in kb\<lparr>keys := AList.update k (new_entry r toggle) (keys kb)\<rparr>)"

definition change_toggle :: "'cb keyboard_binding \<Rightarrow> key \<Rightarrow> bool \<times> 'cb keyboard_binding" where
  "change_toggle kb k =
     (case map_of (keys kb) k of
        None \<Rightarrow> (False, kb)
      | Some e \<Rightarrow>
          (True, kb\<lparr>keys := AList.update k
                     (e\<lparr>toggle_enable := (if toggle_enable e = True then False else True)\<rparr>) (keys kb)\<rparr>))"

definition remove_key :: "'cb keyboard_binding \<Rightarrow> key \<Rightarrow> bool \<times> 'cb keyboard_binding" where
  "remove_key kb k =
     (case map_of (keys kb) k of
        None \<Rightarrow> (False, kb)
      | Some _ \<Rightarrow> (True, kb\<lparr>keys := AList.delete k (keys kb)\<rparr>))"

definition remap :: "'cb keyboard_binding \<Rightarrow> key \<Rightarrow> key \<Rightarrow> bool \<times> 'cb keyboard_binding" where
  "remap kb k to_key =
     (case map_of (keys kb) k of
        None \<Rightarrow> (False, kb)
      | Some v \<Rightarrow> (True, kb\<lparr>keys := AList.update k (v\<lparr>button_mapping := to_key\<rparr>) (keys kb)\<rparr>))"

section \<open>Binding manipulation\<close>

text \<open>\<open>bind\<close> (named \<open>bind_kb\<close> here, \<open>bind\<close> being a HOL constant): a callback
  argument that is not callable is \<open>None\<close>; a callable one is inserted at the front.
  The toggle mode is set whether or not a callback is given.\<close>

definition bind_kb ::
  "'cb keyboard_binding \<Rightarrow> key \<Rightarrow> 'cb option \<Rightarrow> 'cb option \<Rightarrow> bool \<Rightarrow> bool \<times> 'cb keyboard_binding" where
  "bind_kb kb k head_func tail_func toggle =
     (case map_of (keys kb) k of
        None \<Rightarrow> (False, kb)
      | Some v \<Rightarrow>
          (let v1 = v\<lparr>toggle_enable := toggle\<rparr>;
               v2 = (case head_func of None \<Rightarrow> v1 | Some h \<Rightarrow> v1\<lparr>head_funcs := h # head_funcs v1\<rparr>);
               v3 = (case tail_func of None \<Rightarrow> v2 | Some t \<Rightarrow> v2\<lparr>tail_funcs := t # tail_funcs v2\<rparr>)
           in (True, kb\<lparr>keys := AList.update k v3 (keys kb)\<rparr>)))"

text \<open>\<open>bulk_bind\<close>: an argument that is not a list is \<open>None\<close>; a list is appended.\<close>

definition bulk_bind ::
  "'cb keyboard_binding \<Rightarrow> key \<Rightarrow> 'cb list option \<Rightarrow> 'cb list option \<Rightarrow> bool \<Rightarrow> bool \<times> 'cb keyboard_binding" where
  "bulk_bind kb k head_list tail_list toggle =
     (case map_of (keys kb) k of
        None \<Rightarrow> (False, kb)
      | Some v \<Rightarrow>
          (let v1 = v\<lparr>toggle_enable := toggle\<rparr>;
               v2 = (case head_list of None \<Rightarrow> v1 | Some hs \<Rightarrow> v1\<lparr>head_funcs := head_funcs v1 @ hs\<rparr>);
               v3 = (case tail_list of None \<Rightarrow> v2 | Some ts \<Rightarrow> v2\<lparr>tail_funcs := tail_funcs v2 @ ts\<rparr>)
           in (True, kb\<lparr>keys := AList.update k v3 (keys kb)\<rparr>)))"

definition clear_bind :: "'cb keyboard_binding \<Rightarrow> key \<Rightarrow> bool \<times> 'cb keyboard_binding" where
  "clear_bind kb k =
     (case map_of (keys kb) k of
        None \<Rightarrow> (False, kb)
      | Some v \<Rightarrow> (True, kb\<lparr>keys := AList.update k (v\<lparr>head_funcs := [], tail_funcs := []\<rparr>) (keys kb)\<rparr>))"

text \<open>The search loop of \<open>remove_bind\<close>: \<open>for i in range(len(l)): if l[i] == func:
  l.pop(i); return True\<close>. The index grows; what shrinks is \<open>length l - i\<close>.\<close>

function remove_loop :: "'cb \<Rightarrow> 'cb list \<Rightarrow> nat \<Rightarrow> 'cb list option" where
  "remove_loop func l i =
     (if i < length l then
        (if l ! i = func then Some (take i l @ drop (Suc i) l) else remove_loop func l (Suc i))
      else None)"
  by pat_completeness auto
termination
  by (relation "measure (\<lambda>(func, l, i). length l - i)") auto

declare remove_loop.simps [simp del]

text \<open>\<open>remove_bind\<close> does not check that the key exists: \<open>self.keys.get(key)\<close> is
  \<open>None\<close> for a missing key and subscripting it raises \<open>TypeError\<close>.\<close>

definition remove_bind ::
  "'cb keyboard_binding \<Rightarrow> key \<Rightarrow> bool \<Rightarrow> 'cb \<Rightarrow> py_error + bool \<times> 'cb keyboard_binding" where
  "remove_bind kb k head_tail func =
     (case map_of (keys kb) k of
        None \<Rightarrow> Inl TypeError
      | Some v \<Rightarrow>
          (if head_tail = True then
             (case remove_loop func (head_funcs v) 0 of
                None \<Rightarrow> Inr (False, kb)
              | Some hs \<Rightarrow> Inr (True, kb\<lparr>keys := AList.update k (v\<lparr>head_funcs := hs\<rparr>) (keys kb)\<rparr>))
           else
             (case remove_loop func (tail_funcs v) 0 of
                None \<Rightarrow> Inr (False, kb)
              | Some ts \<Rightarrow> Inr (True, kb\<lparr>keys := AList.update k (v\<lparr>tail_funcs := ts\<rparr>) (keys kb)\<rparr>))))"

text \<open>\<open>swap_binds\<close> reads both entries, then writes \<open>a\<close>'s lists and then
  \<open>b\<close>'s; for \<open>key_a = key_b\<close> both names denote the same entry.\<close>

definition swap_binds :: "'cb keyboard_binding \<Rightarrow> key \<Rightarrow> key \<Rightarrow> bool \<times> 'cb keyboard_binding" where
  "swap_binds kb key_a key_b =
     (case (map_of (keys kb) key_a, map_of (keys kb) key_b) of
        (Some a, Some b) \<Rightarrow>
          (let ks1 = AList.update key_a (a\<lparr>head_funcs := head_funcs b, tail_funcs := tail_funcs b\<rparr>) (keys kb);
               ks2 = AList.update key_b (b\<lparr>head_funcs := head_funcs a, tail_funcs := tail_funcs a\<rparr>) ks1
           in (True, kb\<lparr>keys := ks2\<rparr>))
      | _ \<Rightarrow> (False, kb))"

text \<open>\<open>get_binds\<close>: \<open>(None, None)\<close> for a missing key is \<open>None\<close> here.\<close>

definition get_binds :: "'cb keyboard_binding \<Rightarrow> key \<Rightarrow> ('cb list \<times> 'cb list) option" where
  "get_binds kb k = map_option (\<lambda>v. (head_funcs v, tail_funcs v)) (map_of (keys kb) k)"

text \<open>A small object for the witnesses: key \<open>a\<close> bound to head 1 and tail 2, and an
  unbound key \<open>b\<close>.\<close>

definition demo_kb :: "nat keyboard_binding" where
  "demo_kb = \<lparr>APP_TITLE = ''Game'', keys = [(''a'', demo_entry True), (''b'', new_entry ''b'' True)]\<rparr>"

section \<open>The search loop of \<open>remove_bind\<close>\<close>

text \<open>The index loop finds the first occurrence: from any index before which the
  callback does not occur, it removes the first occurrence in the rest of the list.\<close>

lemma remove_loop_from:
  "i \<le> length l \<Longrightarrow> func \<notin> set (take i l) \<Longrightarrow>
   remove_loop func l i =
   (if func \<in> set (drop i l) then Some (take i l @ remove1 func (drop i l)) else None)"
proof (induction func l i rule: remove_loop.induct)
  case (1 func l i)
  show ?case
  proof (cases "i < length l")
    case True
    then have drop_i: "drop i l = l ! i # drop (Suc i) l"
      by (rule Cons_nth_drop_Suc [symmetric])
    show ?thesis
    proof (cases "l ! i = func")
      case True
      with \<open>i < length l\<close> drop_i show ?thesis
        by (simp add: remove_loop.simps [of func l i])
    next
      case False
      with \<open>i < length l\<close> "1.prems" have "func \<notin> set (take (Suc i) l)"
        by (simp add: take_Suc_conv_app_nth)
      with "1.IH" \<open>i < length l\<close> False
      have "remove_loop func l (Suc i) =
            (if func \<in> set (drop (Suc i) l)
             then Some (take (Suc i) l @ remove1 func (drop (Suc i) l)) else None)"
        by simp
      with \<open>i < length l\<close> False drop_i show ?thesis
        by (simp add: remove_loop.simps [of func l i] take_Suc_conv_app_nth)
    qed
  next
    case False
    then have "remove_loop func l i = None"
      by (simp add: remove_loop.simps [of func l i])
    with False "1.prems" show ?thesis by simp
  qed
qed

lemma remove_loop_remove1:
  "remove_loop func l 0 = (if func \<in> set l then Some (remove1 func l) else None)"
  using remove_loop_from [of 0 l func] by simp

lemma swap_binds_involution:
  "snd (swap_binds (snd (swap_binds kb a b)) a b) = kb"
proof (cases "map_of (keys kb) a"; cases "map_of (keys kb) b")
  fix ea eb
  assume A: "map_of (keys kb) a = Some ea" and B: "map_of (keys kb) b = Some eb"
  show ?thesis
  proof (cases "a = b")
    case True
    with A B show ?thesis by (simp add: swap_binds_def update_same_value)
  next
    case False
    let ?a' = "ea\<lparr>head_funcs := head_funcs eb, tail_funcs := tail_funcs eb\<rparr>"
    let ?b' = "eb\<lparr>head_funcs := head_funcs ea, tail_funcs := tail_funcs ea\<rparr>"
    let ?Z = "AList.update a ?a' (keys kb)"
    have "a \<in> fst ` set ?Z" "b \<in> fst ` set ?Z"
      using B by (simp_all add: dom_update map_of_Some_in_keys)
    with False have "AList.update a ea (AList.update b ?b' ?Z) = AList.update b ?b' (AList.update a ea ?Z)"
      by (rule update_commute_present)
    then have "AList.update b eb (AList.update a ea (AList.update b ?b' ?Z)) = keys kb"
      using A B by (simp add: update_same_value)
    then show ?thesis
      using A B False by (simp add: swap_binds_def)
  qed
qed (simp_all add: swap_binds_def)

text \<open>C10: \<open>swap_binds(a, b)\<close> exchanges the callback lists of two registered keys
  and nothing else: afterwards \<open>get_binds(a)\<close> returns what \<open>get_binds(b)\<close> returned
  before and vice versa, every other key's lists are unchanged, and no entry's target,
  press flag, latch or toggle mode changes (for every pair of keys, registered or
  not). Swapping twice gives back the object, also when the keys are the same or
  absent.\<close>

theorem swap_binds_exchanges:
  "snd (swap_binds (snd (swap_binds kb a b)) a b) = kb \<and>
   (\<forall>k. map_option (\<lambda>e. (button_mapping e, is_pressed e, toggle_state e, toggle_enable e))
          (map_of (keys (snd (swap_binds kb a b))) k) =
        map_option (\<lambda>e. (button_mapping e, is_pressed e, toggle_state e, toggle_enable e)) (map_of (keys kb) k)) \<and>
   (map_of (keys kb) a \<noteq> None \<and> map_of (keys kb) b \<noteq> None \<longrightarrow>
      get_binds (snd (swap_binds kb a b)) a = get_binds kb b \<and>
      get_binds (snd (swap_binds kb a b)) b = get_binds kb a \<and>
      (\<forall>k. k \<noteq> a \<and> k \<noteq> b \<longrightarrow> get_binds (snd (swap_binds kb a b)) k = get_binds kb k))"
proof (intro conjI)
  show "snd (swap_binds (snd (swap_binds kb a b)) a b) = kb" by (rule swap_binds_involution)
next
  show "\<forall>k. map_option (\<lambda>e. (button_mapping e, is_pressed e, toggle_state e, toggle_enable e))
          (map_of (keys (snd (swap_binds kb a b))) k) =
        map_option (\<lambda>e. (button_mapping e, is_pressed e, toggle_state e, toggle_enable e)) (map_of (keys kb) k)"
  proof (intro allI)
    fix k
    show "map_option (\<lambda>e. (button_mapping e, is_pressed e, toggle_state e, toggle_enable e))
          (map_of (keys (snd (swap_binds kb a b))) k) =
        map_option (\<lambda>e. (button_mapping e, is_pressed e, toggle_state e, toggle_enable e)) (map_of (keys kb) k)"
      by (cases "map_of (keys kb) a"; cases "map_of (keys kb) b"; cases "k = b"; cases "k = a")
         (simp_all add: swap_binds_def Let_def)
  qed
next
  show "map_of (keys kb) a \<noteq> None \<and> map_of (keys kb) b \<noteq> None \<longrightarrow>
      get_binds (snd (swap_binds kb a b)) a = get_binds kb b \<and>
      get_binds (snd (swap_binds kb a b)) b = get_binds kb a \<and>
      (\<forall>k. k \<noteq> a \<and> k \<noteq> b \<longrightarrow> get_binds (snd (swap_binds kb a b)) k = get_binds kb k)"
    by (cases "a = b") (auto simp: swap_binds_def get_binds_def Let_def)
qed


section \<open>Results of the methods\<close>

lemma add_key_keys:
  "keys (add_key kb k rm toggle) =
   AList.update k (new_entry (case rm of None \<Rightarrow> k | Some m \<Rightarrow> if m = [] then k else m) toggle) (keys kb)"
  by (simp add: add_key_def)

text \<open>C8: on a registered key, \<open>remove_bind(key, True, func)\<close> removes exactly the
  first occurrence of \<open>func\<close> in the head list and returns \<open>True\<close>, or returns
  \<open>False\<close> and changes nothing when \<open>func\<close> does not occur there.\<close>

theorem remove_bind_head_present:
  "map_of (keys kb) k = Some v \<Longrightarrow>
   remove_bind kb k True func =
   (if func \<in> set (head_funcs v)
    then Inr (True, kb\<lparr>keys := AList.update k (v\<lparr>head_funcs := remove1 func (head_funcs v)\<rparr>) (keys kb)\<rparr>)
    else Inr (False, kb))"
  by (simp add: remove_bind_def remove_loop_remove1)

lemma remove_bind_tail_present:
  "map_of (keys kb) k = Some v \<Longrightarrow>
   remove_bind kb k False func =
   (if func \<in> set (tail_funcs v)
    then Inr (True, kb\<lparr>keys := AList.update k (v\<lparr>tail_funcs := remove1 func (tail_funcs v)\<rparr>) (keys kb)\<rparr>)
    else Inr (False, kb))"
  by (simp add: remove_bind_def remove_loop_remove1)

lemmas method_defs =
  change_toggle_def remove_key_def remap_def bind_kb_def bulk_bind_def clear_bind_def
  remove_bind_def swap_binds_def get_binds_def

text \<open>C14: a method that finds its key absent returns \<open>False\<close> and leaves the
  object as it was (\<open>get_binds\<close> returns its not-found value).\<close>

theorem methods_absent_fail:
  assumes "map_of (keys kb) k = None"
  shows "change_toggle kb k = (False, kb) \<and> remove_key kb k = (False, kb) \<and>
    remap kb k to_key = (False, kb) \<and> bind_kb kb k hf tf tg = (False, kb) \<and>
    bulk_bind kb k hl tls tg = (False, kb) \<and> clear_bind kb k = (False, kb) \<and>
    swap_binds kb k k' = (False, kb) \<and> swap_binds kb k' k = (False, kb) \<and>
    get_binds kb k = None"
  using assms by (simp add: method_defs split: option.split)

text \<open>C9: \<open>remove_bind\<close> on a key that is not registered does not return
  \<open>False\<close> as the other methods do: it raises \<open>TypeError\<close>, whichever list is
  named.\<close>

theorem remove_bind_missing_key:
  "map_of (keys kb) k = None \<Longrightarrow> remove_bind kb k head_tail func = Inl TypeError"
  by (simp add: remove_bind_def)

text \<open>Frame conditions: the methods other than \<open>add_key\<close> and \<open>remove_key\<close>
  keep the keys of the dict and their order, and do not touch the window title.\<close>

lemma methods_keep_keys:
  "map fst (keys (snd (change_toggle kb k))) = map fst (keys kb)"
  "map fst (keys (snd (remap kb k to_key))) = map fst (keys kb)"
  "map fst (keys (snd (bind_kb kb k hf tf tg))) = map fst (keys kb)"
  "map fst (keys (snd (bulk_bind kb k hl tls tg))) = map fst (keys kb)"
  "map fst (keys (snd (clear_bind kb k))) = map fst (keys kb)"
  "map fst (keys (snd (swap_binds kb k k'))) = map fst (keys kb)"
  "remove_bind kb k ht f = Inr (b, kb') \<Longrightarrow> map fst (keys kb') = map fst (keys kb)"
  by (auto simp: method_defs dict_simps update_conv' Let_def split: option.splits if_splits)

text \<open>The key and binding methods keep the registry's invariants: keys stay distinct
  and no latch is set on an entry whose press flag is clear.\<close>

lemma methods_keep_invariants:
  assumes "dict_inv (keys kb)" "latch_inv (keys kb)"
  shows "dict_inv (keys (add_key kb k rm tg)) \<and> latch_inv (keys (add_key kb k rm tg))"
    "dict_inv (keys (snd (change_toggle kb k))) \<and> latch_inv (keys (snd (change_toggle kb k)))"
    "dict_inv (keys (snd (remove_key kb k))) \<and> latch_inv (keys (snd (remove_key kb k)))"
    "dict_inv (keys (snd (remap kb k to_key))) \<and> latch_inv (keys (snd (remap kb k to_key)))"
    "dict_inv (keys (snd (bind_kb kb k hf tf tg))) \<and> latch_inv (keys (snd (bind_kb kb k hf tf tg)))"
    "dict_inv (keys (snd (bulk_bind kb k hl tls tg))) \<and> latch_inv (keys (snd (bulk_bind kb k hl tls tg)))"
    "dict_inv (keys (snd (clear_bind kb k))) \<and> latch_inv (keys (snd (clear_bind kb k)))"
    "remove_bind kb k ht f = Inr (b, kb') \<Longrightarrow> dict_inv (keys kb') \<and> latch_inv (keys kb')"
    "dict_inv (keys (snd (swap_binds kb k k'))) \<and> latch_inv (keys (snd (swap_binds kb k k')))"
  using assms
  by (auto simp: add_key_def new_entry_def method_defs dict_simps Let_def update_conv'
           intro!: latch_inv_update latch_inv_delete intro: latch_inv_entry
           split: option.splits if_splits)
     (meson latch_inv_entry)+

lemma methods_keep_title:
  "APP_TITLE (add_key kb k rm tg) = APP_TITLE kb"
  "APP_TITLE (snd (change_toggle kb k)) = APP_TITLE kb"
  "APP_TITLE (snd (remove_key kb k)) = APP_TITLE kb"
  "APP_TITLE (snd (remap kb k to_key)) = APP_TITLE kb"
  "APP_TITLE (snd (bind_kb kb k hf tf tg)) = APP_TITLE kb"
  "APP_TITLE (snd (bulk_bind kb k hl tls tg)) = APP_TITLE kb"
  "APP_TITLE (snd (clear_bind kb k)) = APP_TITLE kb"
  "remove_bind kb k ht f = Inr (b, kb') \<Longrightarrow> APP_TITLE kb' = APP_TITLE kb"
  "APP_TITLE (snd (swap_binds kb k k')) = APP_TITLE kb"
  by (auto simp: add_key_def method_defs Let_def split: option.splits if_splits)

section \<open>Witnesses\<close>

theorem swap_binds_exchanges_witness:
  "map_of (keys demo_kb) ''a'' \<noteq> None \<and> map_of (keys demo_kb) ''b'' \<noteq> None \<and>
   get_binds (snd (swap_binds demo_kb ''a'' ''b'')) ''a'' = Some ([], []) \<and>
   get_binds (snd (swap_binds demo_kb ''a'' ''b'')) ''b'' = Some ([1], [2]) \<and>
   snd (swap_binds (snd (swap_binds demo_kb ''a'' ''b'')) ''a'' ''b'') = demo_kb"
  using swap_binds_exchanges [of demo_kb "''a''" "''b''"]
  by (simp add: demo_kb_def demo_entry_def new_entry_def get_binds_def)

theorem remove_bind_head_present_witness:
  "map_of (keys demo_kb) ''a'' = Some (demo_entry True) \<and>
   remove_bind demo_kb ''a'' True 1 =
   Inr (True, demo_kb\<lparr>keys := AList.update ''a'' ((demo_entry True)\<lparr>head_funcs := []\<rparr>) (keys demo_kb)\<rparr>)"
  using remove_bind_head_present [of demo_kb "''a''" "demo_entry True" 1]
  by (simp add: demo_kb_def demo_entry_def)

theorem methods_absent_fail_witness:
  "map_of (keys demo_kb) ''z'' = None \<and> change_toggle demo_kb ''z'' = (False, demo_kb) \<and>
   remove_key demo_kb ''z'' = (False, demo_kb) \<and> remap demo_kb ''z'' ''a'' = (False, demo_kb) \<and>
   bind_kb demo_kb ''z'' (Some 1) None True = (False, demo_kb) \<and>
   bulk_bind demo_kb ''z'' None None True = (False, demo_kb) \<and> clear_bind demo_kb ''z'' = (False, demo_kb) \<and>
   swap_binds demo_kb ''z'' ''a'' = (False, demo_kb) \<and> swap_binds demo_kb ''a'' ''z'' = (False, demo_kb) \<and>
   get_binds demo_kb ''z'' = None"
proof -
  have h: "map_of (keys demo_kb) ''z'' = None" by (simp add: demo_kb_def)
  show ?thesis using h methods_absent_fail [OF h, where to_key = "''a''" and hf = "Some 1" and tf = None and tg = True
      and hl = None and tls = None and k' = "''a''"]
    by simp
qed

theorem remove_bind_missing_key_witness:
  "map_of (keys demo_kb) ''z'' = None \<and> remove_bind demo_kb ''z'' False 2 = Inl TypeError"
proof -
  have h: "map_of (keys demo_kb) ''z'' = None" by (simp add: demo_kb_def)
  show ?thesis using h remove_bind_missing_key [OF h, of False 2] by simp
qed

end
