(* ===== verification/KB_Update.thy ===== *)
theory KB_Update
  imports KB_Registry
begin

text \<open>
  The handler \<open>update\<close> of src/Keyboard_binding.py (lines 285-321) and what it
  does over one poll and over many. The focus oracle \<open>pygetwindow.getActiveWindow()\<close>
  is an input \<open>active\<close>: \<open>Some t\<close> for a window titled \<open>t\<close>, \<open>None\<close> when there
  is no window or the query raises. The key-state source \<open>keyboard.is_pressed\<close> is an
  input \<open>pressed :: key \<Rightarrow> bool\<close>, one sample per key and poll; \<open>ok\<close> says which
  callbacks return. The loop visits the keys in dict order and, for each key,
  resolves its entry one hop through the mapping, then runs the per-entry machine
  \<open>poll_entry\<close> of KB_Entry on the resolved entry and writes it back in place.
\<close>

section \<open>The handler\<close>

text \<open>\<open>__is_app_active\<close>: the implicit \<open>None\<close> return for another title is falsy.\<close>

definition is_app_active :: "string option \<Rightarrow> string \<Rightarrow> bool" where
  "is_app_active active app_title =
     (case active of None \<Rightarrow> False | Some title \<Rightarrow> title = app_title)"

text \<open>Lines 301-305: one hop through the mapping; a mapping to a key that is not
  registered falls back to the key's own entry.\<close>

definition resolve :: "(key, 'cb key_entry) dict \<Rightarrow> key \<Rightarrow> 'cb key_entry \<Rightarrow> key \<times> 'cb key_entry" where
  "resolve ks k v =
     (if button_mapping v \<noteq> k then
        (case map_of ks (button_mapping v) of
           Some temp \<Rightarrow> (button_mapping v, temp)
         | None \<Rightarrow> (k, v))
      else (k, v))"

text \<open>The body of the \<open>for\<close> loop for key \<open>k\<close> (lines 299-321): the resolved
  entry is mutated in place, so the model writes it back under its own key, also when
  a callback raised part-way.\<close>

definition update_key ::
  "('cb \<Rightarrow> bool) \<Rightarrow> (key \<Rightarrow> bool) \<Rightarrow> key \<Rightarrow> (key, 'cb key_entry) dict \<times> 'cb list \<Rightarrow>
   ('cb, (key, 'cb key_entry) dict \<times> 'cb list) outcome" where
  "update_key ok pressed k w =
     (case w of (ks, tr) \<Rightarrow>
        (case map_of ks k of
           None \<Rightarrow> Inr (ks, tr)
         | Some v \<Rightarrow>
             (case resolve ks k v of (rk, e) \<Rightarrow>
                (case poll_entry ok (pressed k) e tr of
                   Inl (f, e', tr') \<Rightarrow> Inl (f, AList.update rk e' ks, tr')
                 | Inr (e', tr') \<Rightarrow> Inr (AList.update rk e' ks, tr')))))"

fun update_loop ::
  "('cb \<Rightarrow> bool) \<Rightarrow> (key \<Rightarrow> bool) \<Rightarrow> key list \<Rightarrow> (key, 'cb key_entry) dict \<times> 'cb list \<Rightarrow>
   ('cb, (key, 'cb key_entry) dict \<times> 'cb list) outcome" where
  "update_loop ok pressed [] w = Inr w"
| "update_loop ok pressed (k # ks) w =
     (case update_key ok pressed k w of Inl x \<Rightarrow> Inl x | Inr w' \<Rightarrow> update_loop ok pressed ks w')"

text \<open>\<open>update()\<close> returns the new object and the callbacks it called, in order.\<close>

definition update_kb ::
  "string option \<Rightarrow> ('cb \<Rightarrow> bool) \<Rightarrow> (key \<Rightarrow> bool) \<Rightarrow> 'cb keyboard_binding \<Rightarrow>
   ('cb, 'cb keyboard_binding \<times> 'cb list) outcome" where
  "update_kb active ok pressed kb =
     (if \<not> is_app_active active (APP_TITLE kb) then Inr (kb, [])
      else
        (case update_loop ok pressed (map fst (keys kb)) (keys kb, []) of
           Inl (f, ks, tr) \<Rightarrow> Inl (f, kb\<lparr>keys := ks\<rparr>, tr)
         | Inr (ks, tr) \<Rightarrow> Inr (kb\<lparr>keys := ks\<rparr>, tr)))"

text \<open>The driver loop (outside the repository) calls \<open>update()\<close> once per frame; a
  callback that raises ends it. Each poll brings its own focus and key samples.\<close>

fun run_updates ::
  "('cb \<Rightarrow> bool) \<Rightarrow> (string option \<times> (key \<Rightarrow> bool)) list \<Rightarrow> 'cb keyboard_binding \<Rightarrow> 'cb list \<Rightarrow>
   ('cb, 'cb keyboard_binding \<times> 'cb list) outcome" where
  "run_updates ok [] kb tr = Inr (kb, tr)"
| "run_updates ok ((active, pressed) # polls) kb tr =
     (case update_kb active ok pressed kb of
        Inl (f, kb', tr') \<Rightarrow> Inl (f, kb', tr @ tr')
      | Inr (kb', tr') \<Rightarrow> run_updates ok polls kb' (tr @ tr'))"

section \<open>What a poll may change\<close>

text \<open>The view of an entry that \<open>update\<close> never writes: its mapping, its toggle mode
  and its two callback lists.\<close>

definition binding_view :: "'cb key_entry \<Rightarrow> key \<times> bool \<times> 'cb list \<times> 'cb list" where
  "binding_view e = (button_mapping e, toggle_enable e, head_funcs e, tail_funcs e)"

definition bindings_of :: "(key, 'cb key_entry) dict \<Rightarrow> (key \<times> key \<times> bool \<times> 'cb list \<times> 'cb list) list" where
  "bindings_of ks = map (\<lambda>(k, e). (k, binding_view e)) ks"

text \<open>The key whose entry a key's poll reads and writes, and the reference semantics of
  one poll in which every key reads the entries as they were when the poll began
  (writes still go to the current dict).\<close>

definition resolved_key :: "(key, 'cb key_entry) dict \<Rightarrow> key \<Rightarrow> key" where
  "resolved_key ks k = (case map_of ks k of None \<Rightarrow> k | Some v \<Rightarrow> fst (resolve ks k v))"

fun update_loop_snapshot ::
  "('cb \<Rightarrow> bool) \<Rightarrow> (key \<Rightarrow> bool) \<Rightarrow> (key, 'cb key_entry) dict \<Rightarrow> key list \<Rightarrow>
   (key, 'cb key_entry) dict \<times> 'cb list \<Rightarrow> ('cb, (key, 'cb key_entry) dict \<times> 'cb list) outcome" where
  "update_loop_snapshot ok pressed ks0 [] w = Inr w"
| "update_loop_snapshot ok pressed ks0 (k # rest) (ks, tr) =
     (case map_of ks0 k of
        None \<Rightarrow> update_loop_snapshot ok pressed ks0 rest (ks, tr)
      | Some v \<Rightarrow>
          (case resolve ks0 k v of (rk, e) \<Rightarrow>
             (case poll_entry ok (pressed k) e tr of
                Inl (f, e', tr') \<Rightarrow> Inl (f, AList.update rk e' ks, tr')
              | Inr (e', tr') \<Rightarrow> update_loop_snapshot ok pressed ks0 rest (AList.update rk e' ks, tr'))))"

text \<open>With no raising callback, what the snapshot semantics writes and calls, key by
  key in dict order.\<close>

fun poll_writes :: "(key \<Rightarrow> bool) \<Rightarrow> (key, 'cb key_entry) dict \<Rightarrow> key list \<Rightarrow> (key, 'cb key_entry) dict \<Rightarrow> (key, 'cb key_entry) dict" where
  "poll_writes pressed ks0 [] ks = ks"
| "poll_writes pressed ks0 (k # rest) ks =
     poll_writes pressed ks0 rest
       (case map_of ks0 k of
          None \<Rightarrow> ks
        | Some v \<Rightarrow> (case resolve ks0 k v of (rk, e) \<Rightarrow> AList.update rk (entry_next (pressed k) e) ks))"

fun poll_calls :: "(key \<Rightarrow> bool) \<Rightarrow> (key, 'cb key_entry) dict \<Rightarrow> key list \<Rightarrow> 'cb list" where
  "poll_calls pressed ks0 [] = []"
| "poll_calls pressed ks0 (k # rest) =
     (case map_of ks0 k of None \<Rightarrow> [] | Some v \<Rightarrow> entry_calls (pressed k) (snd (resolve ks0 k v)))
     @ poll_calls pressed ks0 rest"

section \<open>Facts about a poll\<close>

lemma resolve_found:
  "map_of ks k = Some v \<Longrightarrow> resolve ks k v = (rk, e) \<Longrightarrow> map_of ks rk = Some e"
  by (auto simp: resolve_def split: if_splits option.splits)

lemma update_key_cases:
  assumes "map_of ks k = Some v" "resolve ks k v = (rk, e)"
  shows "update_key ok pressed k (ks, tr) =
         (case poll_entry ok (pressed k) e tr of
            Inl (f, e', tr') \<Rightarrow> Inl (f, AList.update rk e' ks, tr')
          | Inr (e', tr') \<Rightarrow> Inr (AList.update rk e' ks, tr'))"
  using assms by (simp add: update_key_def)

lemma update_key_frame:
  "map_of ks k \<noteq> None \<Longrightarrow>
   bindings_of (fst (outcome_state (update_key ok pressed k (ks, tr)))) = bindings_of ks \<and>
   (latch_inv ks \<longrightarrow> latch_inv (fst (outcome_state (update_key ok pressed k (ks, tr)))))"
proof -
  assume "map_of ks k \<noteq> None"
  then obtain v where v: "map_of ks k = Some v" by auto
  obtain rk e where re: "resolve ks k v = (rk, e)" by fastforce
  with v have e: "map_of ks rk = Some e" by (rule resolve_found)
  define e' where "e' = fst (outcome_state (poll_entry ok (pressed k) e tr))"
  have st: "fst (outcome_state (update_key ok pressed k (ks, tr))) = AList.update rk e' ks"
    using v re by (auto simp: update_key_cases e'_def split: sum.splits)
  have "binding_view e' = binding_view e"
    by (simp add: e'_def poll_entry_state binding_view_def)
  then have "bindings_of (AList.update rk e' ks) = bindings_of ks"
    unfolding bindings_of_def by (rule update_map_same [OF e])
  moreover have "toggle_state e' \<longrightarrow> is_pressed e'"
    by (simp add: e'_def poll_entry_latch_pressed)
  then have "latch_inv ks \<longrightarrow> latch_inv (AList.update rk e' ks)"
    by (blast intro: latch_inv_update)
  ultimately show ?thesis using st by simp
qed

lemma bindings_of_keys: "bindings_of ks' = bindings_of ks \<Longrightarrow> map fst ks' = map fst ks"
proof -
  assume "bindings_of ks' = bindings_of ks"
  then have "map fst (bindings_of ks') = map fst (bindings_of ks)" by simp
  then show ?thesis by (simp add: bindings_of_def comp_def case_prod_beta)
qed

lemma bindings_of_lookup:
  "bindings_of ks' = bindings_of ks \<Longrightarrow>
   map_option binding_view (map_of ks' k) = map_option binding_view (map_of ks k)"
proof -
  assume "bindings_of ks' = bindings_of ks"
  then have "map_of (bindings_of ks') k = map_of (bindings_of ks) k" by simp
  then show ?thesis by (simp add: bindings_of_def map_of_map)
qed

lemma update_loop_frame:
  "set rest \<subseteq> fst ` set ks \<Longrightarrow>
   bindings_of (fst (outcome_state (update_loop ok pressed rest (ks, tr)))) = bindings_of ks \<and>
   (latch_inv ks \<longrightarrow> latch_inv (fst (outcome_state (update_loop ok pressed rest (ks, tr)))))"
proof (induction rest arbitrary: ks tr)
  case Nil
  then show ?case by simp
next
  case (Cons k rest)
  then have k: "map_of ks k \<noteq> None" by (simp add: map_of_eq_None_iff)
  note fr = update_key_frame [OF k, of ok pressed tr]
  show ?case
  proof (cases "update_key ok pressed k (ks, tr)")
    case (Inl x)
    then have "update_loop ok pressed (k # rest) (ks, tr) = Inl x" by simp
    with Inl fr show ?thesis by simp
  next
    case (Inr w)
    obtain ks' tr' where w: "w = (ks', tr')" by fastforce
    with Inr fr have b: "bindings_of ks' = bindings_of ks" and
      l: "latch_inv ks \<longrightarrow> latch_inv ks'" by simp_all
    have "fst ` set ks' = fst ` set ks"
      using bindings_of_keys [OF b] by (metis image_set)
    with Cons.prems have "set rest \<subseteq> fst ` set ks'" by simp
    then have IH: "bindings_of (fst (outcome_state (update_loop ok pressed rest (ks', tr')))) = bindings_of ks' \<and>
        (latch_inv ks' \<longrightarrow> latch_inv (fst (outcome_state (update_loop ok pressed rest (ks', tr')))))"
      by (rule Cons.IH)
    have "update_loop ok pressed (k # rest) (ks, tr) = update_loop ok pressed rest (ks', tr')"
      using Inr w by simp
    with IH b l show ?thesis by simp
  qed
qed

lemma resolve_same_bindings:
  assumes b: "bindings_of ks = bindings_of ks0"
    and v0: "map_of ks0 k = Some v0" and v: "map_of ks k = Some v"
  shows "fst (resolve ks k v) = fst (resolve ks0 k v0)"
proof -
  have "button_mapping v = button_mapping v0"
    using bindings_of_lookup [OF b, of k] v v0 by (simp add: binding_view_def)
  moreover have "(map_of ks m = None) = (map_of ks0 m = None)" if "m = button_mapping v0" for m
    using bindings_of_lookup [OF b, of m] by (cases "map_of ks m"; cases "map_of ks0 m") auto
  ultimately show ?thesis
    by (cases "map_of ks0 (button_mapping v0)"; cases "map_of ks (button_mapping v0)")
       (auto simp: resolve_def)
qed


lemma update_loop_eq_snapshot_gen:
  "bindings_of ks = bindings_of ks0 \<Longrightarrow> set rest \<subseteq> fst ` set ks0 \<Longrightarrow>
   distinct (map (resolved_key ks0) rest) \<Longrightarrow>
   (\<forall>k \<in> set rest. map_of ks (resolved_key ks0 k) = map_of ks0 (resolved_key ks0 k)) \<Longrightarrow>
   update_loop ok pressed rest (ks, tr) = update_loop_snapshot ok pressed ks0 rest (ks, tr)"
proof (induction rest arbitrary: ks tr)
  case Nil
  then show ?case by simp
next
  case (Cons k rest)
  from Cons.prems(2) have "map_of ks0 k \<noteq> None"
    by (simp add: map_of_eq_None_iff)
  then obtain v0 where v0: "map_of ks0 k = Some v0" by auto
  have "map_of ks k \<noteq> None"
    using bindings_of_lookup [OF Cons.prems(1), of k] v0 by auto
  then obtain v where v: "map_of ks k = Some v" by auto
  obtain rk e0 where r0: "resolve ks0 k v0 = (rk, e0)" by fastforce
  obtain rk' e where r: "resolve ks k v = (rk', e)" by fastforce
  have "rk' = rk"
    using resolve_same_bindings [OF Cons.prems(1) v0 v] r0 r by simp
  have rk: "resolved_key ks0 k = rk" by (simp add: resolved_key_def v0 r0)
  have "map_of ks rk = Some e" using resolve_found [OF v r] \<open>rk' = rk\<close> by simp
  moreover have "map_of ks rk = map_of ks0 rk" using Cons.prems(4) rk by auto
  moreover have "map_of ks0 rk = Some e0" by (rule resolve_found [OF v0 r0])
  ultimately have "e = e0" by simp
  have step: "update_key ok pressed k (ks, tr) =
      (case poll_entry ok (pressed k) e0 tr of
         Inl (f, e', tr') \<Rightarrow> Inl (f, AList.update rk e' ks, tr')
       | Inr (e', tr') \<Rightarrow> Inr (AList.update rk e' ks, tr'))"
  proof -
    from r \<open>rk' = rk\<close> \<open>e = e0\<close> have "resolve ks k v = (rk, e0)" by simp
    from update_key_cases [OF v this] show ?thesis .
  qed
  show ?case
  proof (cases "poll_entry ok (pressed k) e0 tr")
    case (Inl x)
    then show ?thesis using step v0 r0 by (auto split: prod.splits)
  next
    case (Inr y)
    obtain e' tr' where y: "y = (e', tr')" by fastforce
    let ?ks' = "AList.update rk e' ks"
    have kfr: "map_of ks k \<noteq> None" using v by simp
    have "bindings_of ?ks' = bindings_of ks"
      using update_key_frame [OF kfr, of ok pressed tr] step Inr y by simp
    with Cons.prems(1) have b': "bindings_of ?ks' = bindings_of ks0" by simp
    have "\<forall>k' \<in> set rest. resolved_key ks0 k' \<noteq> rk"
      using Cons.prems(3) rk by (auto intro: rev_image_eqI)
    with Cons.prems(4) have u': "\<forall>k' \<in> set rest. map_of ?ks' (resolved_key ks0 k') = map_of ks0 (resolved_key ks0 k')"
      by simp
    have IH: "update_loop ok pressed rest (?ks', tr') = update_loop_snapshot ok pressed ks0 rest (?ks', tr')"
      using Cons.IH [OF b' _ _ u'] Cons.prems(2,3) by simp
    show ?thesis using step v0 r0 Inr y IH by simp
  qed
qed

text \<open>C2: when no two keys resolve to the same entry, the in-place loop of
  \<open>update\<close> computes exactly what the snapshot semantics computes, in which every
  key reads its resolved entry as it was when the poll began: each key's
  transition then depends only on its own entry and its own sample, whatever the
  dict order, and whether or not a callback raises.\<close>

lemma inj_resolved_distinct:
  "dict_inv ks0 \<Longrightarrow> inj_on (resolved_key ks0) (fst ` set ks0) \<Longrightarrow> distinct (map (resolved_key ks0) (map fst ks0))"
proof (subst distinct_map, intro conjI)
  assume "dict_inv ks0" "inj_on (resolved_key ks0) (fst ` set ks0)"
  then show "distinct (map fst ks0)" "inj_on (resolved_key ks0) (set (map fst ks0))" by simp_all
qed

theorem update_loop_eq_snapshot:
  assumes "dict_inv ks0" and "inj_on (resolved_key ks0) (fst ` set ks0)"
  shows "update_loop ok pressed (map fst ks0) (ks0, tr) = update_loop_snapshot ok pressed ks0 (map fst ks0) (ks0, tr)"
  using inj_resolved_distinct [OF assms] by (intro update_loop_eq_snapshot_gen) auto


section \<open>Focus gating, frame and latch invariant of \<open>update\<close>\<close>

text \<open>C5: when the focused window is not the application's (another title, no window,
  or a failing query), \<open>update\<close> calls no callback and changes nothing.\<close>

theorem update_kb_focus_gate:
  "active \<noteq> Some (APP_TITLE kb) \<Longrightarrow> update_kb active ok pressed kb = Inr (kb, [])"
  by (cases active) (auto simp: update_kb_def is_app_active_def)

lemma update_kb_state:
  "fst (outcome_state (update_kb active ok pressed kb)) =
   (if is_app_active active (APP_TITLE kb)
    then kb\<lparr>keys := fst (outcome_state (update_loop ok pressed (map fst (keys kb)) (keys kb, [])))\<rparr>
    else kb)"
  by (auto simp: update_kb_def split: sum.splits)

text \<open>C6: \<open>update\<close> changes no key, no key's position, mapping, toggle mode or
  callback list, and not the window title, also when a callback raises: it writes
  only press flags and latches.\<close>

theorem update_kb_frame:
  "bindings_of (keys (fst (outcome_state (update_kb active ok pressed kb)))) = bindings_of (keys kb) \<and>
   APP_TITLE (fst (outcome_state (update_kb active ok pressed kb))) = APP_TITLE kb"
  using update_loop_frame [of "map fst (keys kb)" "keys kb" ok pressed "[]"]
  by (simp add: update_kb_state)

text \<open>C7: \<open>update\<close> keeps the invariant that a latch is set only on an entry
  whose press flag is set, also when a callback raises part-way.\<close>

theorem update_kb_latch_inv:
  "latch_inv (keys kb) \<Longrightarrow> latch_inv (keys (fst (outcome_state (update_kb active ok pressed kb))))"
  using update_loop_frame [of "map fst (keys kb)" "keys kb" ok pressed "[]"]
  by (simp add: update_kb_state)


section \<open>One poll without remaps\<close>

lemma snapshot_no_raise:
  "update_loop_snapshot (\<lambda>_. True) pressed ks0 rest (ks, tr) =
   Inr (poll_writes pressed ks0 rest ks, tr @ poll_calls pressed ks0 rest)"
  by (induction rest arbitrary: ks tr)
     (auto simp: poll_entry_no_raise split: option.split prod.split)

lemma update_append_present:
  "k \<notin> fst ` set xs \<Longrightarrow> AList.update k v (xs @ (k, w) # ys) = xs @ (k, v) # ys"
  by (induction xs) auto

lemma resolve_self: "button_mapping v = k \<Longrightarrow> resolve ks k v = (k, v)"
  by (simp add: resolve_def)

lemma map_of_identity_entry:
  "dict_inv ks \<Longrightarrow> \<forall>(k, e) \<in> set ks. button_mapping e = k \<Longrightarrow> map_of ks k = Some v \<Longrightarrow>
   button_mapping v = k"
  by (auto dest: map_of_SomeD)

lemma poll_identity_suffix:
  assumes "dict_inv (xs @ ys)" "\<forall>(k, e) \<in> set (xs @ ys). button_mapping e = k"
    and "map fst xs' = map fst xs"
  shows "poll_writes pressed (xs @ ys) (map fst ys) (xs' @ ys) =
         xs' @ map (\<lambda>(k, e). (k, entry_next (pressed k) e)) ys"
  using assms
proof (induction ys arbitrary: xs xs')
  case Nil
  then show ?case by simp
next
  case (Cons p ys)
  obtain k e where p: "p = (k, e)" by fastforce
  let ?ks0 = "xs @ (k, e) # ys"
  have kxs: "k \<notin> fst ` set xs" using Cons.prems(1) p by auto
  then have "map_of xs k = None" by (simp add: map_of_eq_None_iff)
  then have look: "map_of ?ks0 k = Some e" by (simp add: map_add_def)
  have res: "resolve ?ks0 k e = (k, e)"
    using Cons.prems(2) p by (simp add: resolve_self)
  have "fst ` set xs' = fst ` set xs"
    using arg_cong [OF Cons.prems(3), of set] by (simp only: set_map)
  with kxs have notin: "k \<notin> fst ` set xs'" by simp
  have upd: "AList.update k (entry_next (pressed k) e) (xs' @ (k, e) # ys) = (xs' @ [(k, entry_next (pressed k) e)]) @ ys"
    using notin by (simp add: update_append_present)
  have IH: "poll_writes pressed ((xs @ [(k, e)]) @ ys) (map fst ys) ((xs' @ [(k, entry_next (pressed k) e)]) @ ys) =
            (xs' @ [(k, entry_next (pressed k) e)]) @ map (\<lambda>(k, e). (k, entry_next (pressed k) e)) ys"
    using Cons.prems p by (intro Cons.IH) auto
  show ?case using look res upd IH p by simp
qed

lemma poll_calls_identity_suffix:
  assumes "dict_inv (xs @ ys)" "\<forall>(k, e) \<in> set (xs @ ys). button_mapping e = k"
  shows "poll_calls pressed (xs @ ys) (map fst ys) = concat (map (\<lambda>(k, e). entry_calls (pressed k) e) ys)"
  using assms
proof (induction ys arbitrary: xs)
  case Nil
  then show ?case by simp
next
  case (Cons p ys)
  obtain k e where p: "p = (k, e)" by fastforce
  have "k \<notin> fst ` set xs" using Cons.prems(1) p by auto
  then have "map_of xs k = None" by (simp add: map_of_eq_None_iff)
  then have look: "map_of (xs @ (k, e) # ys) k = Some e" by (simp add: map_add_def)
  have res: "resolve (xs @ (k, e) # ys) k e = (k, e)"
    using Cons.prems(2) p by (simp add: resolve_self)
  have "poll_calls pressed ((xs @ [(k, e)]) @ ys) (map fst ys) = concat (map (\<lambda>(k, e). entry_calls (pressed k) e) ys)"
    using Cons.prems p by (intro Cons.IH) auto
  then show ?case using look res p by simp
qed

lemma resolved_key_identity:
  assumes "dict_inv ks" "\<forall>(k, e) \<in> set ks. button_mapping e = k" "k \<in> fst ` set ks"
  shows "resolved_key ks k = k"
proof -
  from assms(3) obtain v where v: "map_of ks k = Some v"
    by (cases "map_of ks k") (simp_all add: map_of_eq_None_iff)
  with assms(1,2) have "button_mapping v = k" by (rule map_of_identity_entry)
  with v show ?thesis by (simp add: resolved_key_def resolve_self)
qed

text \<open>If every key maps to itself and no callback raises, one \<open>update\<close> of the
  focused application is the product of independent per-key machines: each entry
  takes the specification's step \<open>entry_next\<close> on its own key's sample, and the
  calls are each key's \<open>entry_calls\<close> in dict order.\<close>

lemma update_kb_without_remaps:
  assumes "dict_inv (keys kb)" and "\<forall>(k, e) \<in> set (keys kb). button_mapping e = k"
  shows "update_kb (Some (APP_TITLE kb)) (\<lambda>_. True) pressed kb =
         Inr (kb\<lparr>keys := map (\<lambda>(k, e). (k, entry_next (pressed k) e)) (keys kb)\<rparr>,
              concat (map (\<lambda>(k, e). entry_calls (pressed k) e) (keys kb)))"
proof -
  let ?ks = "keys kb"
  have inj: "inj_on (resolved_key ?ks) (fst ` set ?ks)"
    using assms by (simp add: inj_on_def resolved_key_identity)
  have "update_loop (\<lambda>_. True) pressed (map fst ?ks) (?ks, []) =
        update_loop_snapshot (\<lambda>_. True) pressed ?ks (map fst ?ks) (?ks, [])"
    using inj_resolved_distinct [OF assms(1) inj] by (intro update_loop_eq_snapshot_gen) auto
  also have "\<dots> = Inr (poll_writes pressed ?ks (map fst ?ks) ?ks, poll_calls pressed ?ks (map fst ?ks))"
    by (simp add: snapshot_no_raise)
  also have "\<dots> = Inr (map (\<lambda>(k, e). (k, entry_next (pressed k) e)) ?ks,
                     concat (map (\<lambda>(k, e). entry_calls (pressed k) e) ?ks))"
    using poll_identity_suffix [of "[]" ?ks "[]" pressed] poll_calls_identity_suffix [of "[]" ?ks pressed] assms
    by simp
  finally show ?thesis by (simp add: update_kb_def is_app_active_def)
qed

section \<open>Witnesses\<close>

theorem update_loop_eq_snapshot_witness:
  "dict_inv (keys demo_kb) \<and> inj_on (resolved_key (keys demo_kb)) (fst ` set (keys demo_kb)) \<and>
   update_loop (\<lambda>_. True) (\<lambda>k. k = ''a'') (map fst (keys demo_kb)) (keys demo_kb, []) =
   update_loop_snapshot (\<lambda>_. True) (\<lambda>k. k = ''a'') (keys demo_kb) (map fst (keys demo_kb)) (keys demo_kb, [])"
proof -
  have h1: "dict_inv (keys demo_kb)" by (simp add: demo_kb_def)
  have h2: "inj_on (resolved_key (keys demo_kb)) (fst ` set (keys demo_kb))"
    by (simp add: demo_kb_def resolved_key_def resolve_def demo_entry_def new_entry_def)
  show ?thesis using h1 h2 update_loop_eq_snapshot [OF h1 h2] by simp
qed

theorem update_kb_focus_gate_witness:
  "Some ''Editor'' \<noteq> Some (APP_TITLE demo_kb) \<and>
   update_kb (Some ''Editor'') (\<lambda>_. True) (\<lambda>_. True) demo_kb = Inr (demo_kb, [])"
proof -
  have h: "Some ''Editor'' \<noteq> Some (APP_TITLE demo_kb)" by (simp add: demo_kb_def)
  show ?thesis using h update_kb_focus_gate [OF h] by simp
qed

theorem update_kb_latch_inv_witness:
  "latch_inv (keys demo_kb) \<and>
   latch_inv (keys (fst (outcome_state (update_kb (Some ''Game'') (\<lambda>_. True) (\<lambda>k. k = ''a'') demo_kb))))"
proof -
  have h: "latch_inv (keys demo_kb)"
    by (simp add: demo_kb_def latch_inv_def demo_entry_def new_entry_def)
  show ?thesis using h update_kb_latch_inv [OF h] by simp
qed

end
