(* ===== verification/KB_Session.thy ===== *)
theory KB_Session
  imports KB_Update
begin

text \<open>
  Runs of the driver: \<open>run_updates\<close> calls \<open>update()\<close> once per frame, as the game
  loop that the specification describes does. The lemmas here compose polls: a run
  of two sample sequences is the second run from the state the first ends in, a
  poll that leaves the object as it was repeats with the same calls, a segment of
  the dict whose keys map to themselves, are not pressed and have their latches
  clear only has its press flags cleared (\<open>released\<close>) and calls nothing, and in
  a registry without remaps the calls of a poll in which only one key's sample or
  latch is set are that key's calls. The theorem of this theory is the whole-object
  form of the specification's edge and continuous mode: one key held for several
  frames and then released.
\<close>

abbreviation released :: "(key, 'cb key_entry) dict \<Rightarrow> (key, 'cb key_entry) dict" where
  "released ys \<equiv> map (\<lambda>(k, e). (k, entry_next False e)) ys"

section \<open>Composing polls\<close>

lemma run_updates_append:
  "run_updates ok (xs @ ys) kb tr =
   (case run_updates ok xs kb tr of Inl x \<Rightarrow> Inl x | Inr (kb', tr') \<Rightarrow> run_updates ok ys kb' tr')"
  by (induction ok xs kb tr rule: run_updates.induct) (auto split: sum.split)

lemma run_updates_repeat:
  "update_kb active ok p kb = Inr (kb, c) \<Longrightarrow>
   run_updates ok (replicate n (active, p)) kb tr = Inr (kb, tr @ concat (replicate n c))"
  by (induction n arbitrary: tr) auto

text \<open>When no key other than \<open>a\<close> is sampled pressed or has its latch set, the
  calls of the per-key machines are those of \<open>a\<close> alone.\<close>

lemma calls_one_active:
  "dict_inv ks \<Longrightarrow> \<forall>(k, e) \<in> set ks. k \<noteq> a \<longrightarrow> \<not> toggle_state e \<Longrightarrow>
   map_of ks a = Some ea \<Longrightarrow> \<forall>k. k \<noteq> a \<longrightarrow> \<not> p k \<Longrightarrow>
   concat (map (\<lambda>(k, e). entry_calls (p k) e) ks) = entry_calls (p a) ea"
proof (induction ks)
  case Nil
  then show ?case by simp
next
  case (Cons q ks)
  obtain k e where q: "q = (k, e)" by fastforce
  show ?case
  proof (cases "k = a")
    case True
    with Cons.prems q have "ea = e" and a: "a \<notin> fst ` set ks" by auto
    have "entry_calls (p k') e' = []" if "(k', e') \<in> set ks" for k' e'
      using that Cons.prems(2,4) a by (force simp: entry_calls_def)
    then have "concat (map (\<lambda>(k, e). entry_calls (p k) e) ks) = []"
      by (auto simp: concat_eq_Nil_conv)
    with \<open>ea = e\<close> q True show ?thesis by simp
  next
    case False
    with Cons.prems q have "entry_calls (p k) e = []" by (simp add: entry_calls_def)
    with Cons False q show ?thesis by simp
  qed
qed

section \<open>Polling a segment of idle keys\<close>

lemma released_keys [simp]: "map fst (released ys) = map fst ys"
  by (simp add: comp_def case_prod_beta)

lemma released_key_set [simp]: "fst ` (\<lambda>(k, e). (k, entry_next False e)) ` A = fst ` A"
  by (simp add: image_image case_prod_beta)

lemma update_segment:
  "k \<notin> fst ` set pre \<Longrightarrow> AList.update k v (pre @ (k, e) # post) = pre @ (k, v) # post"
  by (induction pre) auto

lemma lookup_segment:
  "dict_inv (pre @ (k, e) # post) \<Longrightarrow> map_of (pre @ (k, e) # post) k = Some e"
  by (rule map_of_is_SomeI) auto

lemma update_loop_append:
  "update_loop ok p (js1 @ js2) w =
   (case update_loop ok p js1 w of Inl x \<Rightarrow> Inl x | Inr w' \<Rightarrow> update_loop ok p js2 w')"
  by (induction js1 arbitrary: w) (auto split: sum.split)

text \<open>A key that maps to itself, has its latch clear and is not pressed only clears its
  own press flag and calls nothing.\<close>

lemma update_loop_idle_segment:
  "dict_inv (pre @ ys @ post) \<Longrightarrow>
   \<forall>(k, e) \<in> set ys. button_mapping e = k \<and> \<not> toggle_state e \<and> \<not> p k \<Longrightarrow>
   update_loop ok p (map fst ys) (pre @ ys @ post, tr) =
   Inr (pre @ map (\<lambda>(k, e). (k, entry_next False e)) ys @ post, tr)"
proof (induction ys arbitrary: pre)
  case Nil
  then show ?case by simp
next
  case (Cons q ys)
  obtain k e where q: "q = (k, e)" by fastforce
  with Cons.prems have e: "button_mapping e = k" "\<not> toggle_state e" "\<not> p k" by auto
  have d: "dict_inv (pre @ (k, e) # ys @ post)" using Cons.prems(1) q by simp
  have kpre: "k \<notin> fst ` set pre" using d by auto
  have step: "update_key ok p k (pre @ (k, e) # ys @ post, tr) =
              Inr (pre @ (k, entry_next False e) # ys @ post, tr)"
    using lookup_segment [OF d] e kpre
    by (simp add: update_key_def resolve_self poll_entry_release_idle entry_next_def update_segment)
  have "dict_inv ((pre @ [(k, entry_next False e)]) @ ys @ post)" using d by simp
  from Cons.IH [OF this] Cons.prems(2)
  have "update_loop ok p (map fst ys) ((pre @ [(k, entry_next False e)]) @ ys @ post, tr) =
        Inr ((pre @ [(k, entry_next False e)]) @ map (\<lambda>(k, e). (k, entry_next False e)) ys @ post, tr)"
    by simp
  then show ?case using step q by simp
qed

lemma released_idle:
  "\<forall>(k, e) \<in> set l. button_mapping e = k \<and> \<not> toggle_state e \<Longrightarrow>
   \<forall>(k, e) \<in> set (released l). button_mapping e = k \<and> \<not> toggle_state e"
  by (induction l) (auto simp: entry_next_def)

lemma released_twice [simp]: "released (released ys) = released ys"
  by (induction ys) auto

section \<open>Holding and releasing one key\<close>

text \<open>C16: in a registry whose keys are distinct, map to themselves and have their
  latches clear (as after construction), with the application focused and no
  callback raising, holding key \<open>a\<close> alone for \<open>n + 1\<close> frames and then releasing
  it calls \<open>a\<close>'s head callbacks once in edge mode and on every held frame in
  continuous mode, then \<open>a\<close>'s tail callbacks once; no other key calls anything, and
  the object ends as if it had seen only the release.\<close>

theorem hold_release_run:
  assumes inv: "dict_inv (keys kb)" and ident: "\<forall>(k, e) \<in> set (keys kb). button_mapping e = k"
    and idle: "\<forall>(k, e) \<in> set (keys kb). \<not> toggle_state e"
    and a: "map_of (keys kb) a = Some e"
  shows "run_updates (\<lambda>_. True)
           (replicate (Suc n) (Some (APP_TITLE kb), \<lambda>k. k = a) @ [(Some (APP_TITLE kb), \<lambda>_. False)]) kb [] =
         Inr (kb\<lparr>keys := map (\<lambda>(k, e). (k, entry_next False e)) (keys kb)\<rparr>,
              (if toggle_enable e then head_funcs e else concat (replicate (Suc n) (head_funcs e))) @ tail_funcs e)"
proof -
  let ?A = "Some (APP_TITLE kb)" and ?P = "\<lambda>k. k = a"
  let ?ks1 = "map (\<lambda>(k, e). (k, entry_next (k = a) e)) (keys kb)"
  let ?kb1 = "kb\<lparr>keys := ?ks1\<rparr>"
  have e0: "\<not> toggle_state e" using idle a by (auto dest: map_of_SomeD)
  have "\<forall>(k, e') \<in> set (keys kb). k \<noteq> a \<longrightarrow> \<not> toggle_state e'"
    using idle by auto
  from calls_one_active [OF inv this a, of ?P] e0
  have step1: "update_kb ?A (\<lambda>_. True) ?P kb = Inr (?kb1, head_funcs e)"
    using update_kb_without_remaps [OF inv ident, of ?P] by (simp add: entry_calls_def)
  have inv1: "dict_inv (keys ?kb1)" using inv by (simp add: comp_def case_prod_beta)
  have ident1: "\<forall>(k, e) \<in> set (keys ?kb1). button_mapping e = k"
    using ident by (auto simp: entry_next_def)
  have a1: "map_of (keys ?kb1) a = Some (entry_next True e)"
    using a by (simp add: map_of_map_keyed)
  have idle1: "\<forall>(k, e') \<in> set (keys ?kb1). k \<noteq> a \<longrightarrow> \<not> toggle_state e'"
    by (auto simp: entry_next_def)
  have "map (\<lambda>(k, e). (k, entry_next (k = a) e)) ?ks1 = ?ks1"
    by (simp add: comp_def case_prod_beta)
  then have step2: "update_kb ?A (\<lambda>_. True) ?P ?kb1 =
      Inr (?kb1, if toggle_enable e then [] else head_funcs e)"
    using update_kb_without_remaps [OF inv1 ident1, of ?P] calls_one_active [OF inv1 idle1 a1, of ?P]
    by (auto simp: entry_calls_def entry_next_def)
  have step3: "update_kb ?A (\<lambda>_. True) (\<lambda>_. False) ?kb1 =
      Inr (kb\<lparr>keys := map (\<lambda>(k, e). (k, entry_next False e)) (keys kb)\<rparr>, tail_funcs e)"
    using update_kb_without_remaps [OF inv1 ident1, of "\<lambda>_. False"]
      calls_one_active [OF inv1 idle1 a1, of "\<lambda>_. False"]
    by (auto simp: entry_calls_def entry_next_def comp_def case_prod_beta)
  show ?thesis
    using run_updates_repeat [OF step2, of n "head_funcs e"] step1 step3
    by (auto simp: run_updates_append concat_replicate_trivial)
qed

section \<open>Witnesses\<close>

theorem hold_release_run_witness:
  "dict_inv (keys demo_kb) \<and> map_of (keys demo_kb) ''a'' = Some (demo_entry True) \<and>
   run_updates (\<lambda>_. True)
     (replicate 3 (Some ''Game'', \<lambda>k. k = ''a'') @ [(Some ''Game'', \<lambda>_. False)]) demo_kb [] =
   Inr (demo_kb\<lparr>keys := map (\<lambda>(k, e). (k, entry_next False e)) (keys demo_kb)\<rparr>, [1, 2])"
proof -
  have h1: "dict_inv (keys demo_kb)" by (simp add: demo_kb_def)
  have h2: "\<forall>(k, e) \<in> set (keys demo_kb). button_mapping e = k"
    by (simp add: demo_kb_def demo_entry_def new_entry_def)
  have h3: "\<forall>(k, e) \<in> set (keys demo_kb). \<not> toggle_state e"
    by (simp add: demo_kb_def demo_entry_def new_entry_def)
  have h4: "map_of (keys demo_kb) ''a'' = Some (demo_entry True)" by (simp add: demo_kb_def)
  have "APP_TITLE demo_kb = ''Game''" by (simp add: demo_kb_def)
  with hold_release_run [OF h1 h2 h3 h4, of 2] h1 h4 show ?thesis
    by (simp add: demo_entry_def numeral_3_eq_3)
qed

end
