(* ===== verification/KB_Remap.thy ===== *)
theory KB_Remap
  imports KB_Session
begin

text \<open>
  The remap defect of \<open>update\<close> in general form. After \<open>remap(a, b)\<close> the loop of
  \<open>update\<close> (src/Keyboard_binding.py lines 296-321) visits \<open>a\<close>, resolves it to
  \<open>b\<close>'s entry and polls that entry with \<open>a\<close>'s sample, and then visits \<open>b\<close>
  itself and polls the same entry with \<open>b\<close>'s sample. The proof follows one poll
  through the dict split into the segments before, between and after the two keys
  (the segment lemmas of KB_Session): the idle segments only have their press flags
  cleared, and the two visits of \<open>b\<close>'s entry press and release it in the same
  poll.
\<close>

section \<open>One poll of a remapped key\<close>

text \<open>The loop body on a key that maps to itself, and on a key remapped to a
  registered key, when no callback raises.\<close>

lemma update_key_self:
  "map_of ks k = Some e \<Longrightarrow> button_mapping e = k \<Longrightarrow>
   update_key (\<lambda>_. True) p k (ks, tr) = Inr (AList.update k (entry_next (p k) e) ks, tr @ entry_calls (p k) e)"
  by (simp add: update_key_def resolve_self poll_entry_no_raise)

lemma update_key_remapped:
  "map_of ks k = Some e \<Longrightarrow> button_mapping e = t \<Longrightarrow> t \<noteq> k \<Longrightarrow> map_of ks t = Some et \<Longrightarrow>
   update_key (\<lambda>_. True) p k (ks, tr) = Inr (AList.update t (entry_next (p k) et) ks, tr @ entry_calls (p k) et)"
  by (simp add: update_key_def resolve_def poll_entry_no_raise)

text \<open>A poll of a dict in which only two keys are not idle is the two loop bodies on
  those keys, with the idle segments around them released.\<close>

lemma poll_two_keys:
  assumes ks: "keys kb = xs @ (k1, e1) # ys @ (k2, e2) # zs" and d: "dict_inv (keys kb)"
    and idle: "\<forall>(k, e) \<in> set (xs @ ys @ zs). button_mapping e = k \<and> \<not> toggle_state e \<and> \<not> p k"
    and t1: "update_key ok p k1 (released xs @ (k1, e1) # ys @ (k2, e2) # zs, []) =
             Inr (released xs @ (k1, e1') # ys @ (k2, e2') # zs, c1)"
    and t2: "update_key ok p k2 (released xs @ (k1, e1') # released ys @ (k2, e2') # zs, c1) =
             Inr (released xs @ (k1, e1'') # released ys @ (k2, e2'') # zs, c2)"
  shows "update_kb (Some (APP_TITLE kb)) ok p kb =
         Inr (kb\<lparr>keys := released xs @ (k1, e1'') # released ys @ (k2, e2'') # released zs\<rparr>, c2)"
proof -
  have dd: "dict_inv (xs @ (k1, e1) # ys @ (k2, e2) # zs)" using d ks by simp
  have seg: "\<forall>(k, e) \<in> set l. button_mapping e = k \<and> \<not> toggle_state e \<and> \<not> p k"
    if "set l \<subseteq> set (xs @ ys @ zs)" for l
    using that idle by blast
  have inv: "dict_inv (l1 @ (k1, f1) # l2 @ (k2, f2) # l3)"
    if "map fst l1 = map fst xs" "map fst l2 = map fst ys" "map fst l3 = map fst zs" for l1 l2 l3 f1 f2
    using dd that by (simp only: map_append list.map prod.sel)
  have p1: "update_loop ok p (map fst xs) ([] @ xs @ (k1, e1) # ys @ (k2, e2) # zs, []) =
            Inr (released xs @ (k1, e1) # ys @ (k2, e2) # zs, [])"
    using update_loop_idle_segment [of "[]" xs "(k1, e1) # ys @ (k2, e2) # zs" p ok "[]", OF _ seg [of xs]] dd
    by simp
  have d3: "dict_inv ((released xs @ [(k1, e1')]) @ ys @ (k2, e2') # zs)"
    using inv [of "released xs" ys zs e1' e2'] by (simp only: append_assoc append.simps released_keys)
  have p3: "update_loop ok p (map fst ys) (released xs @ (k1, e1') # ys @ (k2, e2') # zs, c1) =
            Inr (released xs @ (k1, e1') # released ys @ (k2, e2') # zs, c1)"
    using update_loop_idle_segment [OF d3 seg [of ys], of ok c1]
    by (simp only: append_assoc append.simps set_append Un_upper1 Un_upper2 le_supI2 simp_thms)
  have d5: "dict_inv ((released xs @ (k1, e1'') # released ys @ [(k2, e2'')]) @ zs @ [])"
    using inv [of "released xs" "released ys" zs e1'' e2''] by (simp only: append_assoc append.simps append_Nil2 released_keys)
  have p5: "update_loop ok p (map fst zs) (released xs @ (k1, e1'') # released ys @ (k2, e2'') # zs, c2) =
            Inr (released xs @ (k1, e1'') # released ys @ (k2, e2'') # released zs, c2)"
    using update_loop_idle_segment [OF d5 seg [of zs], of ok c2]
    by (simp only: append_assoc append.simps append_Nil2 set_append Un_upper1 Un_upper2 le_supI2 simp_thms)
  show ?thesis
    using p1 t1 p3 t2 p5 by (simp add: ks update_kb_def is_app_active_def update_loop_append)
qed

text \<open>Key \<open>a\<close> remapped to a self-mapped key \<open>b\<close> after it: \<open>a\<close>'s turn polls
  \<open>b\<close>'s entry with \<open>a\<close>'s sample, then \<open>b\<close>'s turn polls it again with \<open>b\<close>'s
  sample, here not pressed.\<close>

lemma remap_pair_poll:
  assumes ks: "keys kb = xs @ (a, ea) # ys @ (b, eb) # zs" and d: "dict_inv (keys kb)"
    and ea: "button_mapping ea = b" and eb: "button_mapping eb = b"
    and idle: "\<forall>(k, e) \<in> set (xs @ ys @ zs). button_mapping e = k \<and> \<not> toggle_state e"
    and p: "\<forall>k. k \<noteq> a \<longrightarrow> \<not> p k"
  shows "update_kb (Some (APP_TITLE kb)) (\<lambda>_. True) p kb =
         Inr (kb\<lparr>keys := released xs @ (a, ea) # released ys @ (b, entry_next False eb) # released zs\<rparr>,
              entry_calls (p a) eb @ entry_calls False (entry_next (p a) eb))"
proof -
  have dd: "dict_inv (xs @ (a, ea) # ys @ (b, eb) # zs)" using d ks by simp
  then have ab: "a \<noteq> b" and na: "a \<notin> fst ` set (xs @ ys @ zs)" and nb: "b \<notin> fst ` set (xs @ ys @ zs)"
    by auto
  have idle': "\<forall>(k, e) \<in> set (xs @ ys @ zs). button_mapping e = k \<and> \<not> toggle_state e \<and> \<not> p k"
    using idle p na by (auto intro: rev_image_eqI)
  have pb: "\<not> p b" using p ab by simp
  have inv: "dict_inv (l1 @ (a, f1) # l2 @ (b, f2) # l3)"
    if "map fst l1 = map fst xs" "map fst l2 = map fst ys" "map fst l3 = map fst zs" for l1 l2 l3 f1 f2
    using dd that by (simp only: map_append list.map prod.sel)
  have bpre: "b \<notin> fst ` set (l1 @ (a, f1) # l2)"
    if "map fst l1 = map fst xs" "map fst l2 = map fst ys" for l1 l2 f1
  proof -
    have "fst ` set l1 = fst ` set xs" "fst ` set l2 = fst ` set ys"
      using that by (metis image_set)+
    then show ?thesis using nb ab by auto
  qed
  have i1: "dict_inv (released xs @ (a, ea) # ys @ (b, eb) # zs)" by (rule inv) simp_all
  have la: "map_of (released xs @ (a, ea) # ys @ (b, eb) # zs) a = Some ea"
    by (rule lookup_segment [OF i1])
  have lb: "map_of (released xs @ (a, ea) # ys @ (b, eb) # zs) b = Some eb"
    using lookup_segment [of "released xs @ (a, ea) # ys" b eb zs] i1 by simp
  have t1: "update_key (\<lambda>_. True) p a (released xs @ (a, ea) # ys @ (b, eb) # zs, []) =
            Inr (released xs @ (a, ea) # ys @ (b, entry_next (p a) eb) # zs, entry_calls (p a) eb)"
    using update_key_remapped [OF la ea not_sym [OF ab] lb, of p "[]"]
      update_segment [OF bpre [of "released xs" ys ea], of "entry_next (p a) eb" eb zs]
    by simp
  have i2: "dict_inv (released xs @ (a, ea) # released ys @ (b, entry_next (p a) eb) # zs)"
    by (rule inv) simp_all
  have lb2: "map_of (released xs @ (a, ea) # released ys @ (b, entry_next (p a) eb) # zs) b =
             Some (entry_next (p a) eb)"
    using lookup_segment [of "released xs @ (a, ea) # released ys" b "entry_next (p a) eb" zs] i2 by simp
  have eb2: "button_mapping (entry_next (p a) eb) = b" using eb by (simp add: entry_next_def)
  have t2: "update_key (\<lambda>_. True) p b (released xs @ (a, ea) # released ys @ (b, entry_next (p a) eb) # zs,
              entry_calls (p a) eb) =
            Inr (released xs @ (a, ea) # released ys @ (b, entry_next False eb) # zs,
              entry_calls (p a) eb @ entry_calls False (entry_next (p a) eb))"
    using update_key_self [OF lb2 eb2, of p "entry_calls (p a) eb"] pb
      update_segment [OF bpre [of "released xs" "released ys" ea], of "entry_next False eb" "entry_next (p a) eb" zs]
    by simp
  show ?thesis by (rule poll_two_keys [OF ks d idle' t1 t2])
qed

text \<open>The same with \<open>b\<close> before \<open>a\<close> in the dict: \<open>b\<close>'s turn comes first and
  releases its entry, then \<open>a\<close>'s turn polls it with \<open>a\<close>'s sample.\<close>

lemma remap_pair_poll_rev:
  assumes ks: "keys kb = xs @ (b, eb) # ys @ (a, ea) # zs" and d: "dict_inv (keys kb)"
    and ea: "button_mapping ea = b" and eb: "button_mapping eb = b"
    and idle: "\<forall>(k, e) \<in> set (xs @ ys @ zs). button_mapping e = k \<and> \<not> toggle_state e"
    and p: "\<forall>k. k \<noteq> a \<longrightarrow> \<not> p k"
  shows "update_kb (Some (APP_TITLE kb)) (\<lambda>_. True) p kb =
         Inr (kb\<lparr>keys := released xs @ (b, entry_next (p a) eb) # released ys @ (a, ea) # released zs\<rparr>,
              entry_calls False eb @ entry_calls (p a) (entry_next False eb))"
proof -
  have dd: "dict_inv (xs @ (b, eb) # ys @ (a, ea) # zs)" using d ks by simp
  then have ab: "a \<noteq> b" and na: "a \<notin> fst ` set (xs @ ys @ zs)" and nb: "b \<notin> fst ` set (xs @ ys @ zs)"
    by auto
  have idle': "\<forall>(k, e) \<in> set (xs @ ys @ zs). button_mapping e = k \<and> \<not> toggle_state e \<and> \<not> p k"
    using idle p na by (auto intro: rev_image_eqI)
  have pb: "\<not> p b" using p ab by simp
  have inv: "dict_inv (l1 @ (b, f1) # l2 @ (a, f2) # l3)"
    if "map fst l1 = map fst xs" "map fst l2 = map fst ys" "map fst l3 = map fst zs" for l1 l2 l3 f1 f2
    using dd that by (simp only: map_append list.map prod.sel)
  have bpre: "b \<notin> fst ` set (released xs)" using nb by auto
  have i1: "dict_inv (released xs @ (b, eb) # ys @ (a, ea) # zs)" by (rule inv) simp_all
  have t1: "update_key (\<lambda>_. True) p b (released xs @ (b, eb) # ys @ (a, ea) # zs, []) =
            Inr (released xs @ (b, entry_next False eb) # ys @ (a, ea) # zs, entry_calls False eb)"
    using update_key_self [OF lookup_segment [OF i1] eb, of p "[]"] pb
      update_segment [OF bpre, of "entry_next False eb" eb "ys @ (a, ea) # zs"]
    by simp
  have i2: "dict_inv (released xs @ (b, entry_next False eb) # released ys @ (a, ea) # zs)"
    by (rule inv) simp_all
  have la: "map_of (released xs @ (b, entry_next False eb) # released ys @ (a, ea) # zs) a = Some ea"
    using lookup_segment [of "released xs @ (b, entry_next False eb) # released ys" a ea zs] i2 by simp
  have lb: "map_of (released xs @ (b, entry_next False eb) # released ys @ (a, ea) # zs) b =
            Some (entry_next False eb)"
    by (rule lookup_segment [OF i2])
  have t2: "update_key (\<lambda>_. True) p a (released xs @ (b, entry_next False eb) # released ys @ (a, ea) # zs,
              entry_calls False eb) =
            Inr (released xs @ (b, entry_next (p a) eb) # released ys @ (a, ea) # zs,
              entry_calls False eb @ entry_calls (p a) (entry_next False eb))"
    using update_key_remapped [OF la ea not_sym [OF ab] lb, of p "entry_calls False eb"]
      update_segment [OF bpre, of "entry_next (p a) (entry_next False eb)" "entry_next False eb"
        "released ys @ (a, ea) # zs"]
    by simp
  show ?thesis by (rule poll_two_keys [OF ks d idle' t1 t2])
qed

section \<open>Holding and releasing a remapped key\<close>

lemma remap_fixed_point_facts:
  assumes "\<forall>(k, e) \<in> set (xs @ ys @ zs). button_mapping e = k \<and> \<not> toggle_state e"
    and "dict_inv (keys kb)" and "keys kb = l1 @ (k1, f1) # l2 @ (k2, f2) # l3"
    and "map fst l1 = map fst xs" "map fst l2 = map fst ys" "map fst l3 = map fst zs"
    and "keys kb' = released xs @ (k1, g1) # released ys @ (k2, g2) # released zs"
  shows "dict_inv (keys kb')" and
    "\<forall>(k, e) \<in> set (released xs @ released ys @ released zs). button_mapping e = k \<and> \<not> toggle_state e"
proof -
  have "map fst (keys kb') = map fst (keys kb)" using assms(3-7) by simp
  then show "dict_inv (keys kb')" using assms(2) by (simp only:)
  show "\<forall>(k, e) \<in> set (released xs @ released ys @ released zs). button_mapping e = k \<and> \<not> toggle_state e"
    using released_idle [OF assms(1)] by (simp only: map_append)
qed

text \<open>With \<open>a\<close> before \<open>b\<close>: the first poll with \<open>a\<close> held calls \<open>b\<close>'s head and
  tail and leaves a state that every further held poll keeps, with the same calls,
  and that the release poll keeps, with no calls.\<close>

lemma remap_forward_polls:
  assumes ks: "keys kb = xs @ (a, ea) # ys @ (b, eb) # zs" and d: "dict_inv (keys kb)"
    and ea: "button_mapping ea = b" and eb: "button_mapping eb = b" "\<not> toggle_state eb"
    and idle: "\<forall>(k, e) \<in> set (xs @ ys @ zs). button_mapping e = k \<and> \<not> toggle_state e"
  defines "kb1 \<equiv> kb\<lparr>keys := released xs @ (a, ea) # released ys @ (b, entry_next False eb) # released zs\<rparr>"
  shows "update_kb (Some (APP_TITLE kb)) (\<lambda>_. True) (\<lambda>k. k = a) kb = Inr (kb1, head_funcs eb @ tail_funcs eb)"
    and "update_kb (Some (APP_TITLE kb)) (\<lambda>_. True) (\<lambda>k. k = a) kb1 = Inr (kb1, head_funcs eb @ tail_funcs eb)"
    and "update_kb (Some (APP_TITLE kb)) (\<lambda>_. True) (\<lambda>_. False) kb1 = Inr (kb1, [])"
proof -
  have ks1: "keys kb1 = released xs @ (a, ea) # released ys @ (b, entry_next False eb) # released zs"
    by (simp add: kb1_def)
  note fp = remap_fixed_point_facts [OF idle d ks _ _ _ ks1]
  have eb1: "button_mapping (entry_next False eb) = b" using eb by simp
  have t: "APP_TITLE kb1 = APP_TITLE kb" by (simp add: kb1_def)
  show "update_kb (Some (APP_TITLE kb)) (\<lambda>_. True) (\<lambda>k. k = a) kb = Inr (kb1, head_funcs eb @ tail_funcs eb)"
    using remap_pair_poll [OF ks d ea eb(1) idle, of "\<lambda>k. k = a"] eb
    by (simp add: kb1_def entry_calls_def)
  show "update_kb (Some (APP_TITLE kb)) (\<lambda>_. True) (\<lambda>k. k = a) kb1 = Inr (kb1, head_funcs eb @ tail_funcs eb)"
    using remap_pair_poll [OF ks1 fp(1) ea eb1 fp(2), of "\<lambda>k. k = a"] eb t
    by (simp add: kb1_def entry_calls_def del: map_map)
  show "update_kb (Some (APP_TITLE kb)) (\<lambda>_. True) (\<lambda>_. False) kb1 = Inr (kb1, [])"
    using remap_pair_poll [OF ks1 fp(1) ea eb1 fp(2), of "\<lambda>_. False"] eb t
    by (simp add: kb1_def entry_calls_def del: map_map)
qed

text \<open>C18: remap defect, general form. Let key \<open>a\<close> be remapped to a key \<open>b\<close>
  that comes after it in the dict and maps to itself with its latch clear, and let
  every other key map to itself with its latch clear. Then, with the application
  focused and no callback raising, holding \<open>a\<close> alone for any number of polls
  calls \<open>b\<close>'s head callbacks and then \<open>b\<close>'s tail callbacks on every poll,
  in edge mode as in continuous mode: \<open>a\<close>'s turn sets \<open>b\<close>'s latch and \<open>b\<close>'s own
  turn in the same poll, with \<open>b\<close> not pressed, releases it. The specification
  says pressing \<open>a\<close> fires \<open>b\<close>'s bindings with \<open>b\<close>'s mode: head once in edge
  mode and the tail only on release.\<close>

theorem remap_held_refires:
  assumes ks: "keys kb = xs @ (a, ea) # ys @ (b, eb) # zs" and d: "dict_inv (keys kb)"
    and ea: "button_mapping ea = b" and eb: "button_mapping eb = b" "\<not> toggle_state eb"
    and idle: "\<forall>(k, e) \<in> set (xs @ ys @ zs). button_mapping e = k \<and> \<not> toggle_state e"
  shows "run_updates (\<lambda>_. True) (replicate (Suc n) (Some (APP_TITLE kb), \<lambda>k. k = a)) kb [] =
         Inr (kb\<lparr>keys := released xs @ (a, ea) # released ys @ (b, entry_next False eb) # released zs\<rparr>,
              concat (replicate (Suc n) (head_funcs eb @ tail_funcs eb)))"
  using remap_forward_polls(1,2) [OF ks d ea eb idle]
  by (simp add: run_updates_repeat)

text \<open>With \<open>b\<close> before \<open>a\<close>: the first held poll calls \<open>b\<close>'s head and sets its
  latch; every further held poll calls its tail (on \<open>b\<close>'s turn) and then its head
  (on \<open>a\<close>'s turn); the release poll calls its tail.\<close>

lemma remap_reverse_polls:
  assumes ks: "keys kb = xs @ (b, eb) # ys @ (a, ea) # zs" and d: "dict_inv (keys kb)"
    and ea: "button_mapping ea = b" and eb: "button_mapping eb = b" "\<not> toggle_state eb"
    and idle: "\<forall>(k, e) \<in> set (xs @ ys @ zs). button_mapping e = k \<and> \<not> toggle_state e"
  defines "kbT \<equiv> kb\<lparr>keys := released xs @ (b, entry_next True eb) # released ys @ (a, ea) # released zs\<rparr>"
    and "kbF \<equiv> kb\<lparr>keys := released xs @ (b, entry_next False eb) # released ys @ (a, ea) # released zs\<rparr>"
  shows "update_kb (Some (APP_TITLE kb)) (\<lambda>_. True) (\<lambda>k. k = a) kb = Inr (kbT, head_funcs eb)"
    and "update_kb (Some (APP_TITLE kb)) (\<lambda>_. True) (\<lambda>k. k = a) kbT = Inr (kbT, tail_funcs eb @ head_funcs eb)"
    and "update_kb (Some (APP_TITLE kb)) (\<lambda>_. True) (\<lambda>_. False) kbT = Inr (kbF, tail_funcs eb)"
proof -
  have ksT: "keys kbT = released xs @ (b, entry_next True eb) # released ys @ (a, ea) # released zs"
    by (simp add: kbT_def)
  note fp = remap_fixed_point_facts [OF idle d ks _ _ _ ksT]
  have ebT: "button_mapping (entry_next True eb) = b" using eb by simp
  have t: "APP_TITLE kbT = APP_TITLE kb" by (simp add: kbT_def)
  show "update_kb (Some (APP_TITLE kb)) (\<lambda>_. True) (\<lambda>k. k = a) kb = Inr (kbT, head_funcs eb)"
    using remap_pair_poll_rev [OF ks d ea eb(1) idle, of "\<lambda>k. k = a"] eb
    by (simp add: kbT_def entry_calls_def)
  show "update_kb (Some (APP_TITLE kb)) (\<lambda>_. True) (\<lambda>k. k = a) kbT = Inr (kbT, tail_funcs eb @ head_funcs eb)"
    using remap_pair_poll_rev [OF ksT fp(1) ea ebT fp(2), of "\<lambda>k. k = a"] eb t
    by (simp add: kbT_def entry_calls_def del: map_map)
  show "update_kb (Some (APP_TITLE kb)) (\<lambda>_. True) (\<lambda>_. False) kbT = Inr (kbF, tail_funcs eb)"
    using remap_pair_poll_rev [OF ksT fp(1) ea ebT fp(2), of "\<lambda>_. False"] eb t
    by (simp add: kbT_def kbF_def entry_calls_def del: map_map)
qed

lemma released_except:
  "a \<notin> fst ` set l \<Longrightarrow> map (\<lambda>(k, e). (k, if k = a then e else entry_next False e)) l = released l"
  by (induction l) auto

lemma concat_replicate_rotate:
  "concat (replicate n (t @ h)) @ t = t @ concat (replicate n (h @ t))"
  by (induction n) auto

text \<open>C20: the remap defect over a whole press and release, in either dict order.
  With \<open>a\<close> remapped to a self-mapped key \<open>b\<close> with its latch clear and every other
  key self-mapped with its latch clear, pressing \<open>a\<close> for \<open>n + 1\<close> focused polls and
  releasing it calls \<open>b\<close>'s head and tail callbacks \<open>n + 1\<close> times each, alternating,
  whether \<open>b\<close> comes after \<open>a\<close> or before it; every entry but \<open>a\<close>'s ends released.
  The specification promises \<open>b\<close>'s head once and its tail once in edge mode.\<close>

theorem remap_cycle_any_order:
  assumes ord: "keys kb = xs @ (a, ea) # ys @ (b, eb) # zs \<or> keys kb = xs @ (b, eb) # ys @ (a, ea) # zs"
    and d: "dict_inv (keys kb)"
    and ea: "button_mapping ea = b" and eb: "button_mapping eb = b" "\<not> toggle_state eb"
    and idle: "\<forall>(k, e) \<in> set (xs @ ys @ zs). button_mapping e = k \<and> \<not> toggle_state e"
  shows "run_updates (\<lambda>_. True)
           (replicate (Suc n) (Some (APP_TITLE kb), \<lambda>k. k = a) @ [(Some (APP_TITLE kb), \<lambda>_. False)]) kb [] =
         Inr (kb\<lparr>keys := map (\<lambda>(k, e). (k, if k = a then e else entry_next False e)) (keys kb)\<rparr>,
              concat (replicate (Suc n) (head_funcs eb @ tail_funcs eb)))"
  using ord
proof
  assume ks: "keys kb = xs @ (a, ea) # ys @ (b, eb) # zs"
  with d have "a \<notin> fst ` set (xs @ ys @ zs)" "a \<noteq> b" by auto
  then have "map (\<lambda>(k, e). (k, if k = a then e else entry_next False e)) (keys kb) =
             released xs @ (a, ea) # released ys @ (b, entry_next False eb) # released zs"
    using ks by (simp add: released_except image_Un)
  with remap_forward_polls [OF ks d ea eb idle] show ?thesis
    by (simp add: run_updates_append run_updates_repeat)
next
  assume ks: "keys kb = xs @ (b, eb) # ys @ (a, ea) # zs"
  with d have "a \<notin> fst ` set (xs @ ys @ zs)" "a \<noteq> b" by auto
  then have "map (\<lambda>(k, e). (k, if k = a then e else entry_next False e)) (keys kb) =
             released xs @ (b, entry_next False eb) # released ys @ (a, ea) # released zs"
    using ks by (simp add: released_except image_Un)
  with remap_reverse_polls [OF ks d ea eb idle] show ?thesis
    by (simp add: run_updates_append run_updates_repeat concat_replicate_rotate)
qed

section \<open>Witnesses\<close>

theorem remap_held_refires_witness:
  "run_updates (\<lambda>_. True) (replicate 3 (Some ''Game'', \<lambda>k. k = ''a''))
     \<lparr>APP_TITLE = ''Game'', keys = [(''a'', new_entry ''b'' True),
        (''b'', (new_entry ''b'' True)\<lparr>head_funcs := [1 :: nat], tail_funcs := [2]\<rparr>)]\<rparr> [] =
   Inr (\<lparr>APP_TITLE = ''Game'', keys = [(''a'', new_entry ''b'' True),
        (''b'', (new_entry ''b'' True)\<lparr>head_funcs := [1], tail_funcs := [2]\<rparr>)]\<rparr>, [1, 2, 1, 2, 1, 2])"
proof -
  let ?ea = "new_entry ''b'' True :: nat key_entry"
  let ?eb = "(new_entry ''b'' True)\<lparr>head_funcs := [1 :: nat], tail_funcs := [2]\<rparr>"
  let ?kb = "\<lparr>APP_TITLE = ''Game'', keys = [(''a'', ?ea), (''b'', ?eb)]\<rparr>"
  have ks: "keys ?kb = [] @ (''a'', ?ea) # [] @ (''b'', ?eb) # []" by simp
  have d: "dict_inv (keys ?kb)" by simp
  have ea: "button_mapping ?ea = ''b''" and eb: "button_mapping ?eb = ''b''" "\<not> toggle_state ?eb"
    by (simp_all add: new_entry_def)
  have idle: "\<forall>(k, e) \<in> set ([] @ [] @ []). button_mapping e = k \<and> \<not> toggle_state (e :: nat key_entry)"
    by simp
  show ?thesis
    using remap_held_refires [OF ks d ea eb idle, of 2]
    by (simp add: new_entry_def entry_next_def numeral_3_eq_3)
qed

theorem remap_cycle_any_order_witness:
  "run_updates (\<lambda>_. True) (replicate 2 (Some ''Game'', \<lambda>k. k = ''a'') @ [(Some ''Game'', \<lambda>_. False)])
     \<lparr>APP_TITLE = ''Game'', keys = [(''b'', (new_entry ''b'' True)\<lparr>head_funcs := [1 :: nat], tail_funcs := [2]\<rparr>),
        (''a'', new_entry ''b'' True)]\<rparr> [] =
   Inr (\<lparr>APP_TITLE = ''Game'', keys = [(''b'', (new_entry ''b'' True)\<lparr>head_funcs := [1], tail_funcs := [2]\<rparr>),
        (''a'', new_entry ''b'' True)]\<rparr>, [1, 2, 1, 2])"
proof -
  let ?ea = "new_entry ''b'' True :: nat key_entry"
  let ?eb = "(new_entry ''b'' True)\<lparr>head_funcs := [1 :: nat], tail_funcs := [2]\<rparr>"
  let ?kb = "\<lparr>APP_TITLE = ''Game'', keys = [(''b'', ?eb), (''a'', ?ea)]\<rparr>"
  have ord: "keys ?kb = [] @ (''a'', ?ea) # [] @ (''b'', ?eb) # [] \<or> keys ?kb = [] @ (''b'', ?eb) # [] @ (''a'', ?ea) # []"
    by simp
  have d: "dict_inv (keys ?kb)" by simp
  have ea: "button_mapping ?ea = ''b''" and eb: "button_mapping ?eb = ''b''" "\<not> toggle_state ?eb"
    by (simp_all add: new_entry_def)
  have idle: "\<forall>(k, e) \<in> set ([] @ [] @ []). button_mapping e = k \<and> \<not> toggle_state (e :: nat key_entry)"
    by simp
  show ?thesis
    using remap_cycle_any_order [OF ord d ea eb idle, of 1]
    by (simp add: new_entry_def entry_next_def numeral_2_eq_2)
qed

end
