(* ===== verification/KB_Chain.thy ===== *)
theory KB_Chain
  imports KB_Remap
begin

text \<open>
  Remap chains. \<open>update\<close> resolves a key one hop (src/Keyboard_binding.py lines
  301-305): with \<open>a\<close> remapped to \<open>b\<close> and \<open>b\<close> to \<open>c\<close>, \<open>a\<close>'s visit polls
  \<open>b\<close>'s entry, and \<open>b\<close>'s and \<open>c\<close>'s visits both poll \<open>c\<close>'s. The proof follows
  one poll through the dict split around the three keys, with the loop-body lemmas
  of KB_Remap. Since \<open>b\<close>'s entry is then polled only with \<open>a\<close>'s sample, the
  double visit of the remap defect does not occur, and \<open>c\<close>'s callbacks are never
  called on \<open>a\<close>'s behalf.
\<close>

section \<open>A poll with three active keys\<close>

lemma poll_three_keys:
  assumes ks: "keys kb = xs @ (k1, e1) # ys @ (k2, e2) # zs @ (k3, e3) # ws" and d: "dict_inv (keys kb)"
    and idle: "\<forall>(k, e) \<in> set (xs @ ys @ zs @ ws). button_mapping e = k \<and> \<not> toggle_state e \<and> \<not> p k"
    and t1: "update_key ok p k1 (released xs @ (k1, e1) # ys @ (k2, e2) # zs @ (k3, e3) # ws, []) =
             Inr (released xs @ (k1, f1) # ys @ (k2, f2) # zs @ (k3, f3) # ws, c1)"
    and t2: "update_key ok p k2 (released xs @ (k1, f1) # released ys @ (k2, f2) # zs @ (k3, f3) # ws, c1) =
             Inr (released xs @ (k1, g1) # released ys @ (k2, g2) # zs @ (k3, g3) # ws, c2)"
    and t3: "update_key ok p k3 (released xs @ (k1, g1) # released ys @ (k2, g2) # released zs @ (k3, g3) # ws, c2) =
             Inr (released xs @ (k1, h1) # released ys @ (k2, h2) # released zs @ (k3, h3) # ws, c3)"
  shows "update_kb (Some (APP_TITLE kb)) ok p kb =
         Inr (kb\<lparr>keys := released xs @ (k1, h1) # released ys @ (k2, h2) # released zs @ (k3, h3) # released ws\<rparr>, c3)"
proof -
  have dd: "dict_inv (xs @ (k1, e1) # ys @ (k2, e2) # zs @ (k3, e3) # ws)" using d ks by simp
  have seg: "\<forall>(k, e) \<in> set l. button_mapping e = k \<and> \<not> toggle_state e \<and> \<not> p k"
    if "set l \<subseteq> set (xs @ ys @ zs @ ws)" for l
    using that idle by blast
  have inv: "dict_inv (l1 @ (k1, u1) # l2 @ (k2, u2) # l3 @ (k3, u3) # l4)"
    if "map fst l1 = map fst xs" "map fst l2 = map fst ys" "map fst l3 = map fst zs" "map fst l4 = map fst ws"
    for l1 l2 l3 l4 u1 u2 u3
    using dd that by (simp only: map_append list.map prod.sel)
  have p1: "update_loop ok p (map fst xs) ([] @ xs @ (k1, e1) # ys @ (k2, e2) # zs @ (k3, e3) # ws, []) =
            Inr (released xs @ (k1, e1) # ys @ (k2, e2) # zs @ (k3, e3) # ws, [])"
    using update_loop_idle_segment [of "[]" xs "(k1, e1) # ys @ (k2, e2) # zs @ (k3, e3) # ws" p ok "[]",
        OF _ seg [of xs]] dd
    by simp
  have d2: "dict_inv ((released xs @ [(k1, f1)]) @ ys @ (k2, f2) # zs @ (k3, f3) # ws)"
    using inv [of "released xs" ys zs ws f1 f2 f3] by (simp only: append_assoc append.simps released_keys)
  have p2: "update_loop ok p (map fst ys) (released xs @ (k1, f1) # ys @ (k2, f2) # zs @ (k3, f3) # ws, c1) =
            Inr (released xs @ (k1, f1) # released ys @ (k2, f2) # zs @ (k3, f3) # ws, c1)"
    using update_loop_idle_segment [OF d2 seg [of ys], of ok c1]
    by (simp only: append_assoc append.simps set_append Un_upper1 Un_upper2 le_supI2 simp_thms)
  have d3: "dict_inv ((released xs @ (k1, g1) # released ys @ [(k2, g2)]) @ zs @ (k3, g3) # ws)"
    using inv [of "released xs" "released ys" zs ws g1 g2 g3]
    by (simp only: append_assoc append.simps released_keys)
  have p3: "update_loop ok p (map fst zs) (released xs @ (k1, g1) # released ys @ (k2, g2) # zs @ (k3, g3) # ws, c2) =
            Inr (released xs @ (k1, g1) # released ys @ (k2, g2) # released zs @ (k3, g3) # ws, c2)"
    using update_loop_idle_segment [OF d3 seg [of zs], of ok c2]
    by (simp only: append_assoc append.simps set_append Un_upper1 Un_upper2 le_supI2 simp_thms)
  have d4: "dict_inv ((released xs @ (k1, h1) # released ys @ (k2, h2) # released zs @ [(k3, h3)]) @ ws @ [])"
    using inv [of "released xs" "released ys" "released zs" ws h1 h2 h3]
    by (simp only: append_assoc append.simps append_Nil2 released_keys)
  have p4: "update_loop ok p (map fst ws) (released xs @ (k1, h1) # released ys @ (k2, h2) # released zs @ (k3, h3) # ws, c3) =
            Inr (released xs @ (k1, h1) # released ys @ (k2, h2) # released zs @ (k3, h3) # released ws, c3)"
    using update_loop_idle_segment [OF d4 seg [of ws], of ok c3]
    by (simp only: append_assoc append.simps append_Nil2 set_append Un_upper1 Un_upper2 le_supI2 simp_thms)
  show ?thesis
    using p1 t1 p2 t2 p3 t3 p4 by (simp add: ks update_kb_def is_app_active_def update_loop_append)
qed

section \<open>One poll of a remap chain\<close>

lemma remap_chain_poll:
  assumes ks: "keys kb = xs @ (a, ea) # ys @ (b, eb) # zs @ (c, ec) # ws" and d: "dict_inv (keys kb)"
    and ea: "button_mapping ea = b" and eb: "button_mapping eb = c" and ec: "button_mapping ec = c" "\<not> toggle_state ec"
    and idle: "\<forall>(k, e) \<in> set (xs @ ys @ zs @ ws). button_mapping e = k \<and> \<not> toggle_state e"
    and p: "\<forall>k. k \<noteq> a \<longrightarrow> \<not> p k"
  shows "update_kb (Some (APP_TITLE kb)) (\<lambda>_. True) p kb =
         Inr (kb\<lparr>keys := released xs @ (a, ea) # released ys @ (b, entry_next (p a) eb) #
                         released zs @ (c, entry_next False ec) # released ws\<rparr>,
              entry_calls (p a) eb)"
proof -
  have dd: "dict_inv (xs @ (a, ea) # ys @ (b, eb) # zs @ (c, ec) # ws)" using d ks by simp
  then have ab: "a \<noteq> b" and ac: "a \<noteq> c" and bc: "b \<noteq> c"
    and na: "a \<notin> fst ` set (xs @ ys @ zs @ ws)" and nb: "b \<notin> fst ` set (xs @ ys @ zs @ ws)"
    and nc: "c \<notin> fst ` set (xs @ ys @ zs @ ws)"
    by auto
  have idle': "\<forall>(k, e) \<in> set (xs @ ys @ zs @ ws). button_mapping e = k \<and> \<not> toggle_state e \<and> \<not> p k"
    using idle p na by (auto intro: rev_image_eqI)
  have pb: "\<not> p b" and pc: "\<not> p c" using p ab ac by auto
  have inv: "dict_inv (l1 @ (a, u1) # l2 @ (b, u2) # l3 @ (c, u3) # l4)"
    if "map fst l1 = map fst xs" "map fst l2 = map fst ys" "map fst l3 = map fst zs" "map fst l4 = map fst ws"
    for l1 l2 l3 l4 u1 u2 u3
    using dd that by (simp only: map_append list.map prod.sel)
  let ?ebP = "entry_next (p a) eb" and ?ecF = "entry_next False ec"
  have i1: "dict_inv (released xs @ (a, ea) # ys @ (b, eb) # zs @ (c, ec) # ws)" by (rule inv) simp_all
  have la: "map_of (released xs @ (a, ea) # ys @ (b, eb) # zs @ (c, ec) # ws) a = Some ea"
    by (rule lookup_segment [OF i1])
  have lb: "map_of (released xs @ (a, ea) # ys @ (b, eb) # zs @ (c, ec) # ws) b = Some eb"
    using lookup_segment [of "released xs @ (a, ea) # ys" b eb "zs @ (c, ec) # ws"] i1 by simp
  have bpre: "b \<notin> fst ` set (released xs @ (a, ea) # l2)" if "fst ` set l2 = fst ` set ys" for l2
    using nb ab that by (simp add: image_Un)
  have t1: "update_key (\<lambda>_. True) p a (released xs @ (a, ea) # ys @ (b, eb) # zs @ (c, ec) # ws, []) =
            Inr (released xs @ (a, ea) # ys @ (b, ?ebP) # zs @ (c, ec) # ws, entry_calls (p a) eb)"
    using update_key_remapped [OF la ea not_sym [OF ab] lb, of p "[]"]
      update_segment [OF bpre [of ys], of ?ebP eb "zs @ (c, ec) # ws"]
    by simp
  have i2: "dict_inv (released xs @ (a, ea) # released ys @ (b, ?ebP) # zs @ (c, ec) # ws)" by (rule inv) simp_all
  have lb2: "map_of (released xs @ (a, ea) # released ys @ (b, ?ebP) # zs @ (c, ec) # ws) b = Some ?ebP"
    using lookup_segment [of "released xs @ (a, ea) # released ys" b ?ebP "zs @ (c, ec) # ws"] i2 by simp
  have lc2: "map_of (released xs @ (a, ea) # released ys @ (b, ?ebP) # zs @ (c, ec) # ws) c = Some ec"
    using lookup_segment [of "released xs @ (a, ea) # released ys @ (b, ?ebP) # zs" c ec ws] i2 by simp
  have cpre: "c \<notin> fst ` set (released xs @ (a, ea) # l2 @ (b, u) # l3)"
    if "fst ` set l2 = fst ` set ys" "fst ` set l3 = fst ` set zs" for l2 l3 u
    using nc ac bc that by (simp add: image_Un)
  have t2: "update_key (\<lambda>_. True) p b (released xs @ (a, ea) # released ys @ (b, ?ebP) # zs @ (c, ec) # ws,
              entry_calls (p a) eb) =
            Inr (released xs @ (a, ea) # released ys @ (b, ?ebP) # zs @ (c, ?ecF) # ws, entry_calls (p a) eb)"
    using update_key_remapped [OF lb2 _ not_sym [OF bc] lc2, of p "entry_calls (p a) eb"] eb pb ec
      update_segment [OF cpre [of "released ys" zs ?ebP], of ?ecF ec ws]
    by (simp add: entry_calls_def)
  have i3: "dict_inv (released xs @ (a, ea) # released ys @ (b, ?ebP) # released zs @ (c, ?ecF) # ws)"
    by (rule inv) simp_all
  have lc3: "map_of (released xs @ (a, ea) # released ys @ (b, ?ebP) # released zs @ (c, ?ecF) # ws) c = Some ?ecF"
    using lookup_segment [of "released xs @ (a, ea) # released ys @ (b, ?ebP) # released zs" c ?ecF ws] i3 by simp
  have t3: "update_key (\<lambda>_. True) p c (released xs @ (a, ea) # released ys @ (b, ?ebP) # released zs @ (c, ?ecF) # ws,
              entry_calls (p a) eb) =
            Inr (released xs @ (a, ea) # released ys @ (b, ?ebP) # released zs @ (c, ?ecF) # ws, entry_calls (p a) eb)"
    using update_key_self [OF lc3, of p "entry_calls (p a) eb"] ec pc
      update_segment [OF cpre [of "released ys" "released zs" ?ebP], of ?ecF ?ecF ws]
    by (simp add: entry_calls_def)
  show ?thesis by (rule poll_three_keys [OF ks d idle' t1 t2 t3])
qed

section \<open>Holding and releasing the head of a remap chain\<close>

text \<open>C25: resolution is one hop, and a remapped target is not polled by its own
  visit. Let \<open>a\<close> be remapped to \<open>b\<close> and \<open>b\<close> to a self-mapped \<open>c\<close>, in that dict
  order, with the latches of \<open>b\<close> and \<open>c\<close> clear and every other key self-mapped and
  idle. Holding \<open>a\<close> for \<open>n + 1\<close> focused polls and releasing it then calls \<open>b\<close>'s
  callbacks exactly as the specification says for \<open>b\<close>'s mode (head once in edge mode,
  on every held poll in continuous mode, tail once on release) and never \<open>c\<close>'s:
  \<open>b\<close>'s own visit polls \<open>c\<close>'s entry, so the double visit of C18 does not happen.\<close>

theorem remap_chain_one_hop:
  assumes ks: "keys kb = xs @ (a, ea) # ys @ (b, eb) # zs @ (c, ec) # ws" and d: "dict_inv (keys kb)"
    and ea: "button_mapping ea = b" and eb: "button_mapping eb = c" "\<not> toggle_state eb"
    and ec: "button_mapping ec = c" "\<not> toggle_state ec"
    and idle: "\<forall>(k, e) \<in> set (xs @ ys @ zs @ ws). button_mapping e = k \<and> \<not> toggle_state e"
  shows "run_updates (\<lambda>_. True)
           (replicate (Suc n) (Some (APP_TITLE kb), \<lambda>k. k = a) @ [(Some (APP_TITLE kb), \<lambda>_. False)]) kb [] =
         Inr (kb\<lparr>keys := released xs @ (a, ea) # released ys @ (b, entry_next False eb) #
                         released zs @ (c, entry_next False ec) # released ws\<rparr>,
              (if toggle_enable eb then head_funcs eb else concat (replicate (Suc n) (head_funcs eb))) @ tail_funcs eb)"
proof -
  let ?A = "Some (APP_TITLE kb)" and ?P = "\<lambda>k. k = a"
  let ?kb1 = "kb\<lparr>keys := released xs @ (a, ea) # released ys @ (b, entry_next True eb) #
                         released zs @ (c, entry_next False ec) # released ws\<rparr>"
  have ks1: "keys ?kb1 = released xs @ (a, ea) # released ys @ (b, entry_next True eb) #
                         released zs @ (c, entry_next False ec) # released ws" by simp
  have d1: "dict_inv (keys ?kb1)"
    using d ks by (simp only: ks1 map_append list.map released_keys prod.sel)
  have idle1: "\<forall>(k, e) \<in> set (released xs @ released ys @ released zs @ released ws).
      button_mapping e = k \<and> \<not> toggle_state e"
    using released_idle [OF idle] by (simp only: map_append)
  have eb1: "button_mapping (entry_next True eb) = c" and ec1: "button_mapping (entry_next False ec) = c"
    "\<not> toggle_state (entry_next False ec)"
    using eb ec by simp_all
  have p: "\<forall>k. k \<noteq> a \<longrightarrow> \<not> ?P k" "\<forall>k. k \<noteq> a \<longrightarrow> \<not> (\<lambda>_. False) k" by simp_all
  have step1: "update_kb ?A (\<lambda>_. True) ?P kb = Inr (?kb1, head_funcs eb)"
    using remap_chain_poll [OF ks d ea eb(1) ec idle p(1)] eb by (simp add: entry_calls_def)
  have t: "APP_TITLE ?kb1 = APP_TITLE kb" by simp
  have step2: "update_kb ?A (\<lambda>_. True) ?P ?kb1 = Inr (?kb1, if toggle_enable eb then [] else head_funcs eb)"
    using remap_chain_poll [OF ks1 d1 ea eb1 ec1 idle1 p(1)] t by (simp add: entry_calls_def del: map_map)
  have step3: "update_kb ?A (\<lambda>_. True) (\<lambda>_. False) ?kb1 =
      Inr (kb\<lparr>keys := released xs @ (a, ea) # released ys @ (b, entry_next False eb) #
                       released zs @ (c, entry_next False ec) # released ws\<rparr>, tail_funcs eb)"
    using remap_chain_poll [OF ks1 d1 ea eb1 ec1 idle1 p(2)] t by (simp add: entry_calls_def del: map_map)
  show ?thesis
    using run_updates_repeat [OF step2, of n "head_funcs eb"] step1 step3
    by (auto simp: run_updates_append concat_replicate_trivial)
qed

section \<open>Witnesses\<close>

theorem remap_chain_one_hop_witness:
  "run_updates (\<lambda>_. True) (replicate 3 (Some ''Game'', \<lambda>k. k = ''a'') @ [(Some ''Game'', \<lambda>_. False)])
     \<lparr>APP_TITLE = ''Game'', keys = [(''a'', new_entry ''b'' True),
        (''b'', (new_entry ''c'' True)\<lparr>head_funcs := [1 :: nat], tail_funcs := [2]\<rparr>),
        (''c'', (new_entry ''c'' True)\<lparr>head_funcs := [3], tail_funcs := [4]\<rparr>)]\<rparr> [] =
   Inr (\<lparr>APP_TITLE = ''Game'', keys = [(''a'', new_entry ''b'' True),
        (''b'', (new_entry ''c'' True)\<lparr>head_funcs := [1], tail_funcs := [2]\<rparr>),
        (''c'', (new_entry ''c'' True)\<lparr>head_funcs := [3], tail_funcs := [4]\<rparr>)]\<rparr>, [1, 2])"
proof -
  let ?ea = "new_entry ''b'' True :: nat key_entry"
  let ?eb = "(new_entry ''c'' True)\<lparr>head_funcs := [1 :: nat], tail_funcs := [2]\<rparr>"
  let ?ec = "(new_entry ''c'' True)\<lparr>head_funcs := [3 :: nat], tail_funcs := [4]\<rparr>"
  let ?kb = "\<lparr>APP_TITLE = ''Game'', keys = [(''a'', ?ea), (''b'', ?eb), (''c'', ?ec)]\<rparr>"
  have ks: "keys ?kb = [] @ (''a'', ?ea) # [] @ (''b'', ?eb) # [] @ (''c'', ?ec) # []" by simp
  have d: "dict_inv (keys ?kb)" by simp
  have ea: "button_mapping ?ea = ''b''" and eb: "button_mapping ?eb = ''c''" "\<not> toggle_state ?eb"
    and ec: "button_mapping ?ec = ''c''" "\<not> toggle_state ?ec"
    by (simp_all add: new_entry_def)
  have idle: "\<forall>(k, e) \<in> set ([] @ [] @ [] @ []). button_mapping e = k \<and> \<not> toggle_state (e :: nat key_entry)"
    by simp
  show ?thesis
    using remap_chain_one_hop [OF ks d ea eb ec idle, of 2]
    by (simp add: new_entry_def entry_next_def numeral_3_eq_3)
qed

end
