(* ===== verification/KB_Interleave.thy ===== *)
theory KB_Interleave
  imports KB_Remap
begin

text \<open>
  The mutation methods and \<open>update\<close> share \<open>self.keys\<close>, and the driver may call a
  method between two polls. This theory follows such an interleaving: \<open>remap\<close>
  (src/Keyboard_binding.py lines 164-169) called while the remapped key is held,
  between the polls of \<open>update\<close> (lines 296-321).
\<close>

section \<open>Remapping a held key\<close>

lemma released_except_next:
  "a \<notin> fst ` set l \<Longrightarrow> map (\<lambda>(k, e). (k, entry_next (k = a) e)) l = released l"
  by (induction l) auto

lemma remap_present:
  "map_of (keys kb) k = Some v \<Longrightarrow>
   remap kb k t = (True, kb\<lparr>keys := AList.update k (v\<lparr>button_mapping := t\<rparr>) (keys kb)\<rparr>)"
  by (simp add: remap_def)

text \<open>C27: remapping a held key strands its latch. In a registry without remaps and
  with every latch clear, press \<open>a\<close> (its head callbacks run and its latch is set),
  then call \<open>remap(a, b)\<close> for a key \<open>b\<close> after it, then release \<open>a\<close>: the release
  poll polls \<open>b\<close>'s entry on \<open>a\<close>'s behalf, calls nothing, and leaves \<open>a\<close>'s latch
  and press flag set. Only after \<open>remap(a, a)\<close> does the next poll in which \<open>a\<close> is
  up call \<open>a\<close>'s tail callbacks.\<close>

theorem remap_while_held_strands_latch:
  assumes ks: "keys kb = xs @ (a, ea) # ys @ (b, eb) # zs" and d: "dict_inv (keys kb)"
    and ident: "\<forall>(k, e) \<in> set (keys kb). button_mapping e = k"
    and idle: "\<forall>(k, e) \<in> set (keys kb). \<not> toggle_state e"
  shows "\<exists>kb1 kb3 kb5.
           update_kb (Some (APP_TITLE kb)) (\<lambda>_. True) (\<lambda>k. k = a) kb = Inr (kb1, head_funcs ea) \<and>
           update_kb (Some (APP_TITLE kb)) (\<lambda>_. True) (\<lambda>_. False) (snd (remap kb1 a b)) = Inr (kb3, []) \<and>
           map_of (keys kb3) a = Some ((entry_next True ea)\<lparr>button_mapping := b\<rparr>) \<and>
           update_kb (Some (APP_TITLE kb)) (\<lambda>_. True) (\<lambda>_. False) (snd (remap kb3 a a)) = Inr (kb5, tail_funcs ea)"
proof -
  have dd: "dict_inv (xs @ (a, ea) # ys @ (b, eb) # zs)" using d ks by simp
  then have ab: "a \<noteq> b" and na: "a \<notin> fst ` set (xs @ ys @ zs)" and nb: "b \<notin> fst ` set (xs @ ys @ zs)"
    by auto
  have mem: "(k, e) \<in> set (keys kb)" if "(k, e) \<in> set (xs @ ys @ zs)" for k e using that ks by auto
  have ea: "button_mapping ea = a" "\<not> toggle_state ea" and eb: "button_mapping eb = b" "\<not> toggle_state eb"
    using ident idle ks by auto
  have seg: "\<forall>(k, e) \<in> set (xs @ ys @ zs). button_mapping e = k \<and> \<not> toggle_state e"
    using ident idle mem by blast
  have rseg: "\<forall>(k, e) \<in> set (released xs @ released ys @ released zs). button_mapping e = k \<and> \<not> toggle_state e"
    using released_idle [OF seg] by (simp only: map_append)
  let ?eaT = "entry_next True ea" and ?ebF = "entry_next False eb"
  let ?ks1 = "released xs @ (a, ?eaT) # released ys @ (b, ?ebF) # released zs"
  let ?ks3 = "released xs @ (a, ?eaT\<lparr>button_mapping := b\<rparr>) # released ys @ (b, ?ebF) # released zs"
  let ?kb1 = "kb\<lparr>keys := ?ks1\<rparr>"
  have inv: "dict_inv (released xs @ (a, u1) # released ys @ (b, u2) # released zs)" for u1 u2
    using dd by (simp only: map_append list.map released_keys prod.sel)
  have apre: "a \<notin> fst ` set (released xs)" using na by auto
  \<comment> \<open>first poll: \<open>a\<close> pressed, no remap yet\<close>
  have nax: "a \<notin> fst ` set xs" "a \<notin> fst ` set ys" "a \<notin> fst ` set zs" using na by auto
  have "map (\<lambda>(k, e). (k, entry_next (k = a) e)) (keys kb) = ?ks1"
    using ks ab released_except_next [OF nax(1)] released_except_next [OF nax(2)] released_except_next [OF nax(3)]
    by simp
  moreover have "concat (map (\<lambda>(k, e). entry_calls (k = a) e) (keys kb)) = head_funcs ea"
  proof -
    have la0: "map_of (keys kb) a = Some ea" using lookup_segment [of xs a ea "ys @ (b, eb) # zs"] dd ks by simp
    have idle0: "\<forall>(k, e) \<in> set (keys kb). k \<noteq> a \<longrightarrow> \<not> toggle_state e" using idle by auto
    have "entry_calls True ea = head_funcs ea" using ea by (simp add: entry_calls_def)
    with calls_one_active [OF d idle0 la0, of "\<lambda>k. k = a"] show ?thesis by simp
  qed
  ultimately have p1: "update_kb (Some (APP_TITLE kb)) (\<lambda>_. True) (\<lambda>k. k = a) kb = Inr (?kb1, head_funcs ea)"
    using update_kb_without_remaps [OF d ident, of "\<lambda>k. k = a"] by simp
  \<comment> \<open>\<open>remap(a, b)\<close> while \<open>a\<close> is held\<close>
  have r2: "snd (remap ?kb1 a b) = kb\<lparr>keys := ?ks3\<rparr>"
    using lookup_segment [OF inv [of ?eaT ?ebF]] update_segment [OF apre]
    by (simp add: remap_present)
  \<comment> \<open>release poll: \<open>a\<close>'s visit polls \<open>b\<close>'s entry\<close>
  have ks3: "keys (kb\<lparr>keys := ?ks3\<rparr>) = released xs @ (a, ?eaT\<lparr>button_mapping := b\<rparr>) # released ys @ (b, ?ebF) # released zs"
    by simp
  have d3: "dict_inv (keys (kb\<lparr>keys := ?ks3\<rparr>))" using inv by simp
  have p3: "update_kb (Some (APP_TITLE kb)) (\<lambda>_. True) (\<lambda>_. False) (kb\<lparr>keys := ?ks3\<rparr>) = Inr (kb\<lparr>keys := ?ks3\<rparr>, [])"
    using remap_pair_poll [OF ks3 d3 _ _ rseg, of "\<lambda>_. False"] eb
    by (simp add: entry_calls_def del: map_map)
  have l3: "map_of ?ks3 a = Some (?eaT\<lparr>button_mapping := b\<rparr>)" by (rule lookup_segment [OF inv])
  \<comment> \<open>\<open>remap(a, a)\<close> undoes the remap; the next poll releases \<open>a\<close>\<close>
  have r4: "snd (remap (kb\<lparr>keys := ?ks3\<rparr>) a a) = kb\<lparr>keys := ?ks1\<rparr>"
    using l3 update_segment [OF apre] ea by (simp add: remap_present)
  have d1: "dict_inv ?ks1" by (rule inv)
  have s1: "set ?ks1 = set (released xs @ released ys @ released zs) \<union> {(a, ?eaT), (b, ?ebF)}" by auto
  have ident1: "\<forall>(k, e) \<in> set ?ks1. button_mapping e = k"
    unfolding s1 using rseg ea(1) eb(1) by (auto simp del: set_map set_append)
  have idle1: "\<forall>(k, e) \<in> set ?ks1. k \<noteq> a \<longrightarrow> \<not> toggle_state e"
    unfolding s1 using rseg by (auto simp del: set_map set_append)
  have "concat (map (\<lambda>(k, e). entry_calls False e) ?ks1) = tail_funcs ea"
    using calls_one_active [OF d1 idle1 lookup_segment [OF d1], of "\<lambda>_. False"] by (simp add: entry_calls_def)
  then have p5: "\<exists>kb5. update_kb (Some (APP_TITLE kb)) (\<lambda>_. True) (\<lambda>_. False) (kb\<lparr>keys := ?ks1\<rparr>) = Inr (kb5, tail_funcs ea)"
    using update_kb_without_remaps [of "kb\<lparr>keys := ?ks1\<rparr>" "\<lambda>_. False"] d1 ident1 by simp
  show ?thesis using p1 r2 p3 l3 r4 p5 by auto
qed

section \<open>Witnesses\<close>

theorem remap_while_held_strands_latch_witness:
  "\<exists>kb1 kb3 kb5.
     update_kb (Some ''Game'') (\<lambda>_. True) (\<lambda>k. k = ''a'') demo_kb = Inr (kb1, [1]) \<and>
     update_kb (Some ''Game'') (\<lambda>_. True) (\<lambda>_. False) (snd (remap kb1 ''a'' ''b'')) = Inr (kb3, []) \<and>
     map_of (keys kb3) ''a'' = Some ((entry_next True (demo_entry True))\<lparr>button_mapping := ''b''\<rparr>) \<and>
     update_kb (Some ''Game'') (\<lambda>_. True) (\<lambda>_. False) (snd (remap kb3 ''a'' ''a'')) = Inr (kb5, [2])"
proof -
  have ks: "keys demo_kb = [] @ (''a'', demo_entry True) # [] @ (''b'', new_entry ''b'' True) # []"
    by (simp add: demo_kb_def)
  have d: "dict_inv (keys demo_kb)" by (simp add: demo_kb_def)
  have ident: "\<forall>(k, e) \<in> set (keys demo_kb). button_mapping e = k"
    by (simp add: demo_kb_def demo_entry_def new_entry_def)
  have idle: "\<forall>(k, e) \<in> set (keys demo_kb). \<not> toggle_state e"
    by (simp add: demo_kb_def demo_entry_def new_entry_def)
  have "APP_TITLE demo_kb = ''Game''" by (simp add: demo_kb_def)
  with remap_while_held_strands_latch [OF ks d ident idle] show ?thesis
    by (simp add: demo_entry_def)
qed

end
