(* ===== verification/KB_Raise.thy ===== *)
theory KB_Raise
  imports KB_Session
begin

text \<open>
  Exceptions raised by callbacks. \<open>__call_bind\<close> does not catch, so a callback that
  raises propagates out of \<open>update\<close> (src/Keyboard_binding.py lines 296-321) and
  ends the loop over \<open>self.keys\<close>: the entries written before stay written, the
  keys after it are not polled in that frame. \<open>poll_raise_at\<close> follows one poll
  through the dict up to the raising key; the theorems apply it to a raising head
  callback (C19) and to a raising tail callback (C26).
\<close>

section \<open>A raising callback ends the poll\<close>

text \<open>When the keys before \<open>a\<close> are idle and \<open>a\<close>'s visit raises, the poll raises
  with the idle keys released, \<open>a\<close>'s visit's write kept and the keys after \<open>a\<close>
  not polled.\<close>

lemma poll_raise_at:
  assumes ks: "keys kb = xs @ (a, ea) # zs" and d: "dict_inv (keys kb)"
    and idle: "\<forall>(k, e) \<in> set xs. button_mapping e = k \<and> \<not> toggle_state e \<and> \<not> pressed k"
    and raise: "update_key ok pressed a (released xs @ (a, ea) # zs, []) = Inl (f, released xs @ (a, ea') # zs, tr)"
  shows "update_kb (Some (APP_TITLE kb)) ok pressed kb = Inl (f, kb\<lparr>keys := released xs @ (a, ea') # zs\<rparr>, tr)"
proof -
  have dd: "dict_inv ([] @ xs @ (a, ea) # zs)" using d ks by simp
  have "update_loop ok pressed (map fst xs) ([] @ xs @ (a, ea) # zs, []) = Inr (released xs @ (a, ea) # zs, [])"
    using update_loop_idle_segment [OF dd idle] by simp
  with raise show ?thesis by (simp add: ks update_kb_def is_app_active_def update_loop_append)
qed

lemma raise_segment_facts:
  assumes "keys kb = xs @ (a, ea) # zs" and "dict_inv (keys kb)"
  shows "map_of (released xs @ (a, ea) # zs) a = Some ea" and "a \<notin> fst ` set (released xs)"
proof -
  have d1: "dict_inv (released xs @ (a, ea) # zs)"
    using assms by (simp only: map_append list.map released_keys prod.sel)
  show "map_of (released xs @ (a, ea) # zs) a = Some ea" by (rule lookup_segment [OF d1])
  show "a \<notin> fst ` set (released xs)" using d1 by simp
qed

text \<open>C19: let key \<open>a\<close> map to itself with its latch clear, and let one of its head
  callbacks raise while those before it return. If every key before \<open>a\<close> maps to
  itself, has its latch clear and is not pressed, then a focused poll in which \<open>a\<close>
  is pressed calls \<open>a\<close>'s head callbacks up to the raising one and raises; \<open>a\<close>'s
  press flag is set but its latch stays clear, and every key after \<open>a\<close> keeps its
  entry and calls nothing, whatever its sample and latch: a latched key there does
  not see its release. The specification asks for a failing callback to be isolated
  and the poll to go on.\<close>

theorem raise_stops_poll:
  assumes ks: "keys kb = xs @ (a, ea) # zs" and d: "dict_inv (keys kb)"
    and ea: "button_mapping ea = a" "\<not> toggle_state ea" "head_funcs ea = hs @ f # hs'"
    and raise: "list_all ok hs" "\<not> ok f"
    and pa: "pressed a"
    and idle: "\<forall>(k, e) \<in> set xs. button_mapping e = k \<and> \<not> toggle_state e \<and> \<not> pressed k"
  shows "update_kb (Some (APP_TITLE kb)) ok pressed kb =
         Inl (f, kb\<lparr>keys := released xs @ (a, ea\<lparr>is_pressed := True\<rparr>) # zs\<rparr>, hs @ [f])"
proof (rule poll_raise_at [OF ks d idle])
  note seg = raise_segment_facts [OF ks d]
  show "update_key ok pressed a (released xs @ (a, ea) # zs, []) =
        Inl (f, released xs @ (a, ea\<lparr>is_pressed := True\<rparr>) # zs, hs @ [f])"
    using seg ea raise pa update_segment [OF seg(2)]
    by (simp add: update_key_def resolve_self poll_entry_def fire_head_def call_bind_first_raise Let_def)
qed

text \<open>C26: a raising tail callback is not retried. Let key \<open>a\<close> map to itself with its
  latch set, and let one of its tail callbacks raise while those before it return.
  If the keys before \<open>a\<close> are idle, a focused poll in which \<open>a\<close> is up calls \<open>a\<close>'s
  tail callbacks up to the raising one and raises, with \<open>a\<close>'s latch already cleared
  (line 320 clears it before line 321 calls the tail list): the next poll does not
  call the tail list again, unlike a raising head list (C13), and the rest of that
  tail list is never called for this release.\<close>

theorem raise_tail_clears_latch:
  assumes ks: "keys kb = xs @ (a, ea) # zs" and d: "dict_inv (keys kb)"
    and ea: "button_mapping ea = a" "toggle_state ea" "tail_funcs ea = ts @ f # ts'"
    and raise: "list_all ok ts" "\<not> ok f"
    and up: "\<not> pressed a"
    and idle: "\<forall>(k, e) \<in> set xs. button_mapping e = k \<and> \<not> toggle_state e \<and> \<not> pressed k"
  shows "update_kb (Some (APP_TITLE kb)) ok pressed kb =
         Inl (f, kb\<lparr>keys := released xs @ (a, ea\<lparr>is_pressed := False, toggle_state := False\<rparr>) # zs\<rparr>, ts @ [f])"
proof (rule poll_raise_at [OF ks d idle])
  note seg = raise_segment_facts [OF ks d]
  show "update_key ok pressed a (released xs @ (a, ea) # zs, []) =
        Inl (f, released xs @ (a, ea\<lparr>is_pressed := False, toggle_state := False\<rparr>) # zs, ts @ [f])"
    using seg ea raise up update_segment [OF seg(2)]
    by (simp add: update_key_def resolve_self poll_entry_def call_bind_first_raise Let_def)
qed

section \<open>Witnesses\<close>

theorem raise_stops_poll_witness:
  "update_kb (Some ''Game'') (\<lambda>c. c \<noteq> 2) (\<lambda>k. k = ''a'')
     \<lparr>APP_TITLE = ''Game'', keys = [(''a'', (new_entry ''a'' True)\<lparr>head_funcs := [1 :: nat, 2, 3]\<rparr>),
        (''b'', (new_entry ''b'' True)\<lparr>is_pressed := True, toggle_state := True, tail_funcs := [4]\<rparr>)]\<rparr> =
   Inl (2, \<lparr>APP_TITLE = ''Game'', keys = [(''a'', (new_entry ''a'' True)\<lparr>is_pressed := True, head_funcs := [1, 2, 3]\<rparr>),
        (''b'', (new_entry ''b'' True)\<lparr>is_pressed := True, toggle_state := True, tail_funcs := [4]\<rparr>)]\<rparr>, [1, 2])"
proof -
  let ?ea = "(new_entry ''a'' True)\<lparr>head_funcs := [1 :: nat, 2, 3]\<rparr>"
  let ?eb = "(new_entry ''b'' True)\<lparr>is_pressed := True, toggle_state := True, tail_funcs := [4 :: nat]\<rparr>"
  let ?kb = "\<lparr>APP_TITLE = ''Game'', keys = [(''a'', ?ea), (''b'', ?eb)]\<rparr>"
  have ks: "keys ?kb = [] @ (''a'', ?ea) # [(''b'', ?eb)]" by simp
  have d: "dict_inv (keys ?kb)" by simp
  have ea: "button_mapping ?ea = ''a''" "\<not> toggle_state ?ea" "head_funcs ?ea = [1] @ 2 # [3]"
    by (simp_all add: new_entry_def)
  have raise: "list_all (\<lambda>c. c \<noteq> 2) [1 :: nat]" "\<not> (\<lambda>c. c \<noteq> 2) (2 :: nat)" by simp_all
  have pa: "(\<lambda>k. k = ''a'') ''a''" by simp
  have idle: "\<forall>(k, e) \<in> set []. button_mapping e = k \<and> \<not> toggle_state (e :: nat key_entry) \<and> \<not> (\<lambda>k. k = ''a'') k"
    by simp
  show ?thesis
    using raise_stops_poll [OF ks d ea raise pa idle] by (simp add: new_entry_def)
qed

theorem raise_tail_clears_latch_witness:
  "update_kb (Some ''Game'') (\<lambda>c. c \<noteq> 5) (\<lambda>_. False)
     \<lparr>APP_TITLE = ''Game'', keys = [(''a'', (new_entry ''a'' True)\<lparr>is_pressed := True, toggle_state := True,
        tail_funcs := [4 :: nat, 5, 6]\<rparr>), (''b'', new_entry ''b'' True)]\<rparr> =
   Inl (5, \<lparr>APP_TITLE = ''Game'', keys = [(''a'', (new_entry ''a'' True)\<lparr>tail_funcs := [4, 5, 6]\<rparr>),
        (''b'', new_entry ''b'' True)]\<rparr>, [4, 5])"
proof -
  let ?ea = "(new_entry ''a'' True)\<lparr>is_pressed := True, toggle_state := True, tail_funcs := [4 :: nat, 5, 6]\<rparr>"
  let ?kb = "\<lparr>APP_TITLE = ''Game'', keys = [(''a'', ?ea), (''b'', new_entry ''b'' True)]\<rparr>"
  have ks: "keys ?kb = [] @ (''a'', ?ea) # [(''b'', new_entry ''b'' True)]" by simp
  have d: "dict_inv (keys ?kb)" by simp
  have ea: "button_mapping ?ea = ''a''" "toggle_state ?ea" "tail_funcs ?ea = [4] @ 5 # [6]"
    by (simp_all add: new_entry_def)
  have raise: "list_all (\<lambda>c. c \<noteq> 5) [4 :: nat]" "\<not> (\<lambda>c. c \<noteq> 5) (5 :: nat)" by simp_all
  have up: "\<not> (\<lambda>_. False) ''a''" by simp
  have idle: "\<forall>(k, e) \<in> set []. button_mapping e = k \<and> \<not> toggle_state (e :: nat key_entry) \<and> \<not> (\<lambda>_. False) k"
    by simp
  show ?thesis
    using raise_tail_clears_latch [OF ks d ea raise up idle] by (simp add: new_entry_def)
qed

end
