(* ===== verification/KB_Runs.thy ===== *)
theory KB_Runs
  imports KB_Session
begin

text \<open>
  Whole runs of the driver in a registry without remaps. \<open>poll_keys\<close> is one poll
  of the per-key machines of the specification (section 4.3), every key stepping on
  its own sample; \<open>run_keys\<close> applies it to the polls in which the application is
  focused and skips the others, as \<open>update\<close>'s focus check does (lines 297-298).
  The theorems: a run of \<open>update\<close> is this product (C21); a latched key's tail fires
  at the first focused poll in which it is up, however long the focus was lost
  (C22); and a press and release completed while unfocused is lost (C23).
\<close>

section \<open>Runs as products of per-key machines\<close>

text \<open>A registry whose key \<open>a\<close> is latched (pressed and fired, not yet released),
  for the witnesses.\<close>

definition latched_kb :: "nat keyboard_binding" where
  "latched_kb = \<lparr>APP_TITLE = ''Game'',
     keys = [(''a'', (new_entry ''a'' True)\<lparr>is_pressed := True, toggle_state := True,
                head_funcs := [1], tail_funcs := [2]\<rparr>),
             (''b'', new_entry ''b'' True)]\<rparr>"

definition poll_keys :: "(key \<Rightarrow> bool) \<Rightarrow> (key, 'cb key_entry) dict \<Rightarrow> (key, 'cb key_entry) dict \<times> 'cb list" where
  "poll_keys p ks =
     (map (\<lambda>(k, e). (k, entry_next (p k) e)) ks, concat (map (\<lambda>(k, e). entry_calls (p k) e) ks))"

fun run_keys ::
  "string \<Rightarrow> (string option \<times> (key \<Rightarrow> bool)) list \<Rightarrow> (key, 'cb key_entry) dict \<Rightarrow>
   (key, 'cb key_entry) dict \<times> 'cb list" where
  "run_keys app [] ks = (ks, [])"
| "run_keys app ((active, p) # ps) ks =
     (if is_app_active active app
      then (case poll_keys p ks of (ks1, c1) \<Rightarrow> (case run_keys app ps ks1 of (ks2, c2) \<Rightarrow> (ks2, c1 @ c2)))
      else run_keys app ps ks)"

lemma update_kb_unfocused:
  "\<not> is_app_active active (APP_TITLE kb) \<Longrightarrow> update_kb active ok p kb = Inr (kb, [])"
  by (simp add: update_kb_def)

lemma poll_keys_keys: "map fst (fst (poll_keys p ks)) = map fst ks"
  by (induction ks) (auto simp: poll_keys_def)

lemma poll_keys_identity:
  "\<forall>(k, e) \<in> set ks. button_mapping e = k \<Longrightarrow> \<forall>(k, e) \<in> set (fst (poll_keys p ks)). button_mapping e = k"
  by (auto simp: poll_keys_def)

text \<open>C21: in a registry with distinct keys and no remaps, and with callbacks that all
  return, any sequence of polls of \<open>update\<close> (each with its own focus and key sample)
  gives the object whose entries have stepped as independent per-key machines over
  the focused polls only, and the calls of those machines in poll and dict order.\<close>

theorem run_updates_product:
  assumes "dict_inv (keys kb)" and "\<forall>(k, e) \<in> set (keys kb). button_mapping e = k"
  shows "run_updates (\<lambda>_. True) ps kb tr =
         Inr (kb\<lparr>keys := fst (run_keys (APP_TITLE kb) ps (keys kb))\<rparr>, tr @ snd (run_keys (APP_TITLE kb) ps (keys kb)))"
  using assms
proof (induction ps arbitrary: kb tr)
  case Nil
  then show ?case by simp
next
  case (Cons q ps)
  obtain active p where q: "q = (active, p)" by fastforce
  show ?case
  proof (cases "is_app_active active (APP_TITLE kb)")
    case False
    then show ?thesis using Cons q by (simp add: update_kb_unfocused)
  next
    case True
    then have "active = Some (APP_TITLE kb)" by (simp add: is_app_active_def split: option.splits)
    then have step: "update_kb active (\<lambda>_. True) p kb = Inr (kb\<lparr>keys := fst (poll_keys p (keys kb))\<rparr>, snd (poll_keys p (keys kb)))"
      using update_kb_without_remaps [OF Cons.prems] by (simp add: poll_keys_def)
    let ?kb1 = "kb\<lparr>keys := fst (poll_keys p (keys kb))\<rparr>"
    have "dict_inv (keys ?kb1)" using Cons.prems(1) by (simp add: poll_keys_keys)
    moreover have "\<forall>(k, e) \<in> set (keys ?kb1). button_mapping e = k"
      using poll_keys_identity [OF Cons.prems(2)] by simp
    ultimately have "run_updates (\<lambda>_. True) ps ?kb1 (tr @ snd (poll_keys p (keys kb))) =
        Inr (?kb1\<lparr>keys := fst (run_keys (APP_TITLE kb) ps (keys ?kb1))\<rparr>,
             (tr @ snd (poll_keys p (keys kb))) @ snd (run_keys (APP_TITLE kb) ps (keys ?kb1)))"
      using Cons.IH by simp
    then show ?thesis using True step q by (simp split: prod.split)
  qed
qed

section \<open>Unfocused polls and the release of a latched key\<close>

lemma run_updates_unfocused:
  "\<forall>(act, q) \<in> set us. \<not> is_app_active act (APP_TITLE kb) \<Longrightarrow> run_updates ok us kb tr = Inr (kb, tr)"
  by (induction us arbitrary: tr) (auto simp: update_kb_unfocused)

lemma concat_map_split:
  "(a, ea) \<in> set ks \<Longrightarrow> \<exists>pre post. concat (map f ks) = pre @ f (a, ea) @ post"
proof -
  assume "(a, ea) \<in> set ks"
  then obtain xs ys where "ks = xs @ (a, ea) # ys" by (blast dest: split_list)
  then show ?thesis by auto
qed

lemma run_unfocused_then_focused:
  assumes "dict_inv (keys kb)" and "\<forall>(k, e) \<in> set (keys kb). button_mapping e = k"
    and "\<forall>(act, q) \<in> set us. \<not> is_app_active act (APP_TITLE kb)"
  shows "run_updates (\<lambda>_. True) (us @ [(Some (APP_TITLE kb), p)]) kb [] =
         Inr (kb\<lparr>keys := fst (poll_keys p (keys kb))\<rparr>, snd (poll_keys p (keys kb)))"
  using run_updates_unfocused [OF assms(3), of "\<lambda>_. True" "[]"] update_kb_without_remaps [OF assms(1,2), of p]
  by (simp add: run_updates_append poll_keys_def)

text \<open>C22: liveness of the release. In a registry without remaps and with no raising
  callback, a key whose latch is set keeps it through any number of polls in which the
  application is not focused, and the first focused poll in which the key is up calls
  its tail callbacks and clears its latch.\<close>

theorem release_fires_tail:
  assumes inv: "dict_inv (keys kb)" and ident: "\<forall>(k, e) \<in> set (keys kb). button_mapping e = k"
    and a: "map_of (keys kb) a = Some ea" and latched: "toggle_state ea"
    and unf: "\<forall>(act, q) \<in> set us. \<not> is_app_active act (APP_TITLE kb)" and up: "\<not> p a"
  shows "\<exists>pre post. run_updates (\<lambda>_. True) (us @ [(Some (APP_TITLE kb), p)]) kb [] =
           Inr (kb\<lparr>keys := fst (poll_keys p (keys kb))\<rparr>, pre @ tail_funcs ea @ post) \<and>
         map_of (fst (poll_keys p (keys kb))) a = Some (ea\<lparr>is_pressed := False, toggle_state := False\<rparr>)"
proof -
  have "(a, ea) \<in> set (keys kb)" using a by (rule map_of_SomeD)
  then obtain pre post where
    "concat (map (\<lambda>(k, e). entry_calls (p k) e) (keys kb)) = pre @ entry_calls (p a) ea @ post"
    using concat_map_split [of a ea "keys kb" "\<lambda>(k, e). entry_calls (p k) e"] by auto
  moreover have "entry_calls (p a) ea = tail_funcs ea" using up latched by (simp add: entry_calls_def)
  moreover have "map_of (fst (poll_keys p (keys kb))) a = Some (ea\<lparr>is_pressed := False, toggle_state := False\<rparr>)"
    using a up by (simp add: poll_keys_def map_of_map_keyed entry_next_def)
  ultimately show ?thesis
    using run_unfocused_then_focused [OF inv ident unf, of p] by (auto simp: poll_keys_def)
qed

text \<open>C23: a press and release cycle completed while the application is not focused
  is lost. If a latched key in edge mode is up and down again between two focused
  polls, the next focused poll, which sees it pressed, calls neither its tail (for the
  release it did not see) nor its head (for the new press), and the latch stays set.
  The specification's invariant says the latch is set only while the key is held and
  that every press and release cycle fires the tail once.\<close>

theorem unfocused_cycle_lost:
  assumes inv: "dict_inv (keys kb)" and ident: "\<forall>(k, e) \<in> set (keys kb). button_mapping e = k"
    and a: "map_of (keys kb) a = Some ea" and latched: "toggle_state ea" and edge: "toggle_enable ea"
    and unf: "\<forall>(act, q) \<in> set us. \<not> is_app_active act (APP_TITLE kb)" and down: "p a"
  shows "run_updates (\<lambda>_. True) (us @ [(Some (APP_TITLE kb), p)]) kb [] =
           Inr (kb\<lparr>keys := fst (poll_keys p (keys kb))\<rparr>,
                concat (map (\<lambda>(k, e). if k = a then [] else entry_calls (p k) e) (keys kb))) \<and>
         map_of (fst (poll_keys p (keys kb))) a = Some (ea\<lparr>is_pressed := True\<rparr>)"
proof -
  have "entry_calls (p k) e = (if k = a then [] else entry_calls (p k) e)" if "(k, e) \<in> set (keys kb)" for k e
  proof (cases "k = a")
    case True
    with that inv a have "e = ea" by (metis map_of_is_SomeI option.inject)
    with True down latched edge show ?thesis by (simp add: entry_calls_def)
  qed simp
  then have "concat (map (\<lambda>(k, e). entry_calls (p k) e) (keys kb)) =
             concat (map (\<lambda>(k, e). if k = a then [] else entry_calls (p k) e) (keys kb))"
    by (auto intro!: arg_cong [where f = concat] map_cong)
  moreover have "map_of (fst (poll_keys p (keys kb))) a = Some (ea\<lparr>is_pressed := True\<rparr>)"
    using a down latched by (simp add: poll_keys_def map_of_map_keyed entry_next_def)
  ultimately show ?thesis
    using run_unfocused_then_focused [OF inv ident unf, of p] by (simp add: poll_keys_def)
qed

section \<open>Witnesses\<close>

theorem run_updates_product_witness:
  "run_updates (\<lambda>_. True) [(Some ''Game'', \<lambda>k. k = ''a''), (None, \<lambda>_. True), (Some ''Game'', \<lambda>_. False)] demo_kb [] =
   Inr (demo_kb\<lparr>keys := fst (run_keys ''Game'' [(Some ''Game'', \<lambda>k. k = ''a''), (None, \<lambda>_. True),
                                 (Some ''Game'', \<lambda>_. False)] (keys demo_kb))\<rparr>, [1, 2])"
proof -
  have h1: "dict_inv (keys demo_kb)" by (simp add: demo_kb_def)
  have h2: "\<forall>(k, e) \<in> set (keys demo_kb). button_mapping e = k"
    by (simp add: demo_kb_def demo_entry_def new_entry_def)
  have t: "APP_TITLE demo_kb = ''Game''" by (simp add: demo_kb_def)
  have c: "snd (run_keys ''Game'' [(Some ''Game'', \<lambda>k. k = ''a''), (None, \<lambda>_. True), (Some ''Game'', \<lambda>_. False)]
             (keys demo_kb)) = [1, 2 :: nat]"
    by (simp add: demo_kb_def demo_entry_def new_entry_def poll_keys_def is_app_active_def entry_calls_def
        entry_next_def)
  show ?thesis
    using run_updates_product [OF h1 h2, of "[(Some ''Game'', \<lambda>k. k = ''a''), (None, \<lambda>_. True),
      (Some ''Game'', \<lambda>_. False)]" "[]"] t c
    by simp
qed

lemma latched_kb_facts:
  "dict_inv (keys latched_kb)" "\<forall>(k, e) \<in> set (keys latched_kb). button_mapping e = k"
  "APP_TITLE latched_kb = ''Game''"
  "map_of (keys latched_kb) ''a'' =
   Some ((new_entry ''a'' True)\<lparr>is_pressed := True, toggle_state := True, head_funcs := [1], tail_funcs := [2]\<rparr>)"
  by (simp_all add: latched_kb_def new_entry_def)

theorem release_fires_tail_witness:
  "\<exists>pre post. run_updates (\<lambda>_. True) [(None, \<lambda>_. True), (Some ''Editor'', \<lambda>_. False), (Some ''Game'', \<lambda>_. False)]
       latched_kb [] =
     Inr (latched_kb\<lparr>keys := fst (poll_keys (\<lambda>_. False) (keys latched_kb))\<rparr>, pre @ [2] @ post)"
proof -
  note f = latched_kb_facts
  have unf: "\<forall>(act, q) \<in> set [(None, \<lambda>_. True), (Some ''Editor'', \<lambda>_. False)].
      \<not> is_app_active act (APP_TITLE latched_kb)"
    by (simp add: f(3) is_app_active_def)
  from release_fires_tail [OF f(1,2,4) _ unf, of "\<lambda>_. False"] f(3) show ?thesis
    by (simp add: new_entry_def)
qed

theorem unfocused_cycle_lost_witness:
  "run_updates (\<lambda>_. True) [(None, \<lambda>_. False), (Some ''Game'', \<lambda>k. k = ''a'')] latched_kb [] =
   Inr (latched_kb\<lparr>keys := fst (poll_keys (\<lambda>k. k = ''a'') (keys latched_kb))\<rparr>, [])"
proof -
  note f = latched_kb_facts
  have unf: "\<forall>(act, q) \<in> set [(None :: string option, \<lambda>_. False)]. \<not> is_app_active act (APP_TITLE latched_kb)"
    by (simp add: is_app_active_def)
  from unfocused_cycle_lost [OF f(1,2,4) _ _ unf, of "\<lambda>k. k = ''a''"] f(3) show ?thesis
    by (simp add: new_entry_def latched_kb_def entry_calls_def)
qed

end
