(* ===== verification/KB_Bounds.thy ===== *)
theory KB_Bounds
  imports KB_Update
begin

text \<open>
  A bound on the work of one \<open>update\<close> (src/Keyboard_binding.py lines 296-321).
  Each visit of a key runs at most one callback list of its resolved entry, and
  \<open>__call_bind\<close> runs each callback of that list at most once; \<open>update\<close> writes no
  callback list, so the lists read on a visit are those of the poll's start. Hence
  one poll calls at most \<open>poll_bound\<close> callbacks: the sum over the keys, in dict
  order, of the longer list of each key's resolved entry. The bound holds for every
  registry, remapped keys and raising callbacks included, and is reached by the remap
  defect, where a remapped key and its target both run the target's lists.
\<close>

section \<open>How many callbacks a poll calls\<close>

definition key_bound :: "(key, 'cb key_entry) dict \<Rightarrow> key \<Rightarrow> nat" where
  "key_bound ks k =
     (case map_of ks k of
        None \<Rightarrow> 0
      | Some v \<Rightarrow> (case resolve ks k v of (rk, e) \<Rightarrow> max (length (head_funcs e)) (length (tail_funcs e))))"

definition poll_bound :: "(key, 'cb key_entry) dict \<Rightarrow> nat" where
  "poll_bound ks = sum_list (map (key_bound ks) (map fst ks))"

lemma call_bind_length:
  "length (outcome_state (call_bind ok fs tr)) \<le> length tr + length fs"
proof (induction fs arbitrary: tr)
  case (Cons f fs)
  show ?case using Cons.IH [of "tr @ [f]"] by simp
qed simp

lemma poll_entry_length:
  "length (snd (outcome_state (poll_entry ok p e tr))) \<le>
   length tr + max (length (head_funcs e)) (length (tail_funcs e))"
proof -
  have h: "length (outcome_state (call_bind ok (head_funcs e) tr)) \<le> length tr + max (length (head_funcs e)) (length (tail_funcs e))"
    using call_bind_length [of ok "head_funcs e" tr] by linarith
  have t: "length (outcome_state (call_bind ok (tail_funcs e) tr)) \<le> length tr + max (length (head_funcs e)) (length (tail_funcs e))"
    using call_bind_length [of ok "tail_funcs e" tr] by linarith
  show ?thesis
    using h t
    by (cases "call_bind ok (head_funcs e) tr"; cases "call_bind ok (tail_funcs e) tr")
       (auto simp: poll_entry_def fire_head_def Let_def)
qed

lemma update_key_length:
  "length (snd (outcome_state (update_key ok p k (ks, tr)))) \<le> length tr + key_bound ks k"
proof (cases "map_of ks k")
  case None
  then show ?thesis by (simp add: update_key_def key_bound_def)
next
  case (Some v)
  obtain rk e where r: "resolve ks k v = (rk, e)" by fastforce
  have "length (snd (outcome_state (update_key ok p k (ks, tr)))) =
        length (snd (outcome_state (poll_entry ok (p k) e tr)))"
    using Some r by (auto simp: update_key_cases split: sum.split)
  also have "\<dots> \<le> length tr + key_bound ks k"
    using poll_entry_length [of ok "p k" e tr] Some r by (simp add: key_bound_def)
  finally show ?thesis .
qed

lemma key_bound_same_bindings:
  assumes b: "bindings_of ks = bindings_of ks0"
  shows "key_bound ks k = key_bound ks0 k"
proof (cases "map_of ks0 k")
  case None
  then have "map_of ks k = None" using bindings_of_lookup [OF b, of k] by simp
  with None show ?thesis by (simp add: key_bound_def)
next
  case (Some v0)
  then obtain v where v: "map_of ks k = Some v" using bindings_of_lookup [OF b, of k] by auto
  obtain rk e where r: "resolve ks k v = (rk, e)" by fastforce
  obtain rk0 e0 where r0: "resolve ks0 k v0 = (rk0, e0)" by fastforce
  have "rk = rk0" using resolve_same_bindings [OF b Some v] r r0 by simp
  have "map_of ks rk = Some e" by (rule resolve_found [OF v r])
  moreover have "map_of ks0 rk = Some e0" using resolve_found [OF Some r0] \<open>rk = rk0\<close> by simp
  ultimately have "binding_view e = binding_view e0" using bindings_of_lookup [OF b, of rk] by simp
  then show ?thesis using v Some r r0 by (simp add: key_bound_def binding_view_def)
qed

lemma update_loop_length:
  "bindings_of ks = bindings_of ks0 \<Longrightarrow>
   length (snd (outcome_state (update_loop ok p rest (ks, tr)))) \<le>
   length tr + sum_list (map (key_bound ks0) rest)"
proof (induction rest arbitrary: ks tr)
  case Nil
  then show ?case by simp
next
  case (Cons k rest)
  have kb: "key_bound ks k = key_bound ks0 k" by (rule key_bound_same_bindings [OF Cons.prems])
  show ?case
  proof (cases "update_key ok p k (ks, tr)")
    case (Inl x)
    then have "length (snd (outcome_state (update_loop ok p (k # rest) (ks, tr)))) =
               length (snd (outcome_state (update_key ok p k (ks, tr))))" by simp
    also have "\<dots> \<le> length tr + key_bound ks0 k" using update_key_length [of ok p k ks tr] kb by simp
    finally show ?thesis by simp
  next
    case (Inr w)
    obtain ks' tr' where w: "w = (ks', tr')" by fastforce
    have len: "length tr' \<le> length tr + key_bound ks0 k"
      using update_key_length [of ok p k ks tr] kb Inr w by simp
    have "bindings_of ks' = bindings_of ks"
    proof (cases "map_of ks k")
      case None
      then show ?thesis using Inr w by (simp add: update_key_def)
    next
      case (Some v)
      then show ?thesis using update_key_frame [of ks k ok p tr] Inr w by simp
    qed
    with Cons.prems have "bindings_of ks' = bindings_of ks0" by simp
    from Cons.IH [OF this, of tr'] len Inr w show ?thesis by simp
  qed
qed

text \<open>C24: one poll calls at most \<open>poll_bound\<close> callbacks, whatever the registry,
  the focus, the samples and the callbacks that raise.\<close>

theorem update_kb_call_bound:
  "length (snd (outcome_state (update_kb active ok p kb))) \<le> poll_bound (keys kb)"
proof (cases "is_app_active active (APP_TITLE kb)")
  case False
  then show ?thesis by (simp add: update_kb_def)
next
  case True
  have "length (snd (outcome_state (update_kb active ok p kb))) =
        length (snd (outcome_state (update_loop ok p (map fst (keys kb)) (keys kb, []))))"
    using True by (auto simp: update_kb_def split: sum.split)
  also have "\<dots> \<le> poll_bound (keys kb)"
    using update_loop_length [of "keys kb" "keys kb" ok p "map fst (keys kb)" "[]"]
    by (simp add: poll_bound_def)
  finally show ?thesis .
qed

text \<open>The bound is reached: with \<open>a\<close> remapped to \<open>b\<close>, holding \<open>a\<close> runs \<open>b\<close>'s
  head on \<open>a\<close>'s visit and \<open>b\<close>'s tail on \<open>b\<close>'s own.\<close>

lemma call_bound_reached:
  "update_kb (Some ''Game'') (\<lambda>_. True) (\<lambda>k. k = ''a'')
     \<lparr>APP_TITLE = ''Game'', keys = [(''a'', new_entry ''b'' True),
        (''b'', (new_entry ''b'' True)\<lparr>head_funcs := [1 :: nat], tail_funcs := [2]\<rparr>)]\<rparr> =
   Inr (\<lparr>APP_TITLE = ''Game'', keys = [(''a'', new_entry ''b'' True),
        (''b'', (new_entry ''b'' True)\<lparr>head_funcs := [1], tail_funcs := [2]\<rparr>)]\<rparr>, [1, 2]) \<and>
   poll_bound [(''a'', new_entry ''b'' True),
     (''b'', (new_entry ''b'' True)\<lparr>head_funcs := [1 :: nat], tail_funcs := [2]\<rparr>)] = 2"
  by (simp add: update_kb_def is_app_active_def update_key_def resolve_def poll_entry_def fire_head_def
      new_entry_def poll_bound_def key_bound_def Let_def)

end
