(* ===== verification/KB_Storage.thy ===== *)
theory KB_Storage
  imports KB_Registry
begin

text \<open>
  Persistence of the key map: \<open>load_keys\<close> and \<open>save_keys\<close> of
  src/Keyboard_binding.py (lines 100-123). Reading and parsing the JSON file is the
  library's work and is not modelled: \<open>load_keys\<close> receives the parsed object as an
  association list of key to target (\<open>None\<close> when opening or parsing failed, or the
  JSON value is not an object, all of which the bare \<open>except\<close> turns into
  \<open>False\<close>), and \<open>save_keys\<close> returns the object it would write, or the
  \<open>OSError\<close> that opening an unwritable file raises and the method lets escape.
  The lemmas describe the merge that \<open>load_keys\<close> performs, the order in which it
  adds new keys, and the save/load round trip into any object with the same keys.
\<close>

section \<open>Loading\<close>

text \<open>The loop body of \<open>load_keys\<close>: an unknown key is added with \<open>add_key(k, v)\<close>;
  for a known key, \<open>key != v\<close> compares the entry list with a string and is always
  true, so the target is always overwritten.\<close>

fun load_items :: "'cb keyboard_binding \<Rightarrow> (key \<times> key) list \<Rightarrow> 'cb keyboard_binding" where
  "load_items kb [] = kb"
| "load_items kb ((k, v) # items) =
     (case map_of (keys kb) k of
        None \<Rightarrow> load_items (add_key kb k (Some v) True) items
      | Some key \<Rightarrow> load_items (kb\<lparr>keys := AList.update k (key\<lparr>button_mapping := v\<rparr>) (keys kb)\<rparr>) items)"

definition load_keys :: "'cb keyboard_binding \<Rightarrow> (key \<times> key) list option \<Rightarrow> bool \<times> 'cb keyboard_binding" where
  "load_keys kb data =
     (case data of
        None \<Rightarrow> (False, kb)
      | Some items \<Rightarrow> (True, load_items kb items))"

section \<open>Saving\<close>

definition keys_pack :: "'cb keyboard_binding \<Rightarrow> (key \<times> key) list" where
  "keys_pack kb = map (\<lambda>(k, v). (k, button_mapping v)) (keys kb)"

definition save_keys :: "bool \<Rightarrow> 'cb keyboard_binding \<Rightarrow> py_error + (key \<times> key) list" where
  "save_keys writable kb = (if writable then Inr (keys_pack kb) else Inl OSError)"

section \<open>Merge semantics and round trips\<close>

lemma load_items_lookup:
  "distinct (map fst items) \<Longrightarrow>
   map_of (keys (load_items kb items)) k =
   (case map_of items k of
      None \<Rightarrow> map_of (keys kb) k
    | Some v \<Rightarrow> Some (case map_of (keys kb) k of
                       None \<Rightarrow> new_entry (if v = [] then k else v) True
                     | Some e \<Rightarrow> e\<lparr>button_mapping := v\<rparr>))"
proof (induction items arbitrary: kb)
  case Nil
  then show ?case by simp
next
  case (Cons p items)
  obtain k0 v0 where p: "p = (k0, v0)" by (cases p)
  with Cons.prems have k0: "k0 \<notin> fst ` set items" and dist: "distinct (map fst items)"
    by auto
  then have "map_of items k0 = None" by (simp add: map_of_eq_None_iff)
  with Cons.IH [OF dist] p show ?case
    by (auto simp: add_key_def split: option.splits)
qed

lemma load_items_keys:
  "distinct (map fst items) \<Longrightarrow>
   map fst (keys (load_items kb items)) =
   map fst (keys kb) @ filter (\<lambda>k. k \<notin> fst ` set (keys kb)) (map fst items)"
proof (induction items arbitrary: kb)
  case Nil
  then show ?case by simp
next
  case (Cons p items)
  obtain k0 v0 where p: "p = (k0, v0)" by (cases p)
  with Cons.prems have k0: "k0 \<notin> set (map fst items)" and dist: "distinct (map fst items)"
    by auto
  have "filter (\<lambda>k. k \<notin> insert k0 (fst ` set (keys kb))) (map fst items) =
        filter (\<lambda>k. k \<notin> fst ` set (keys kb)) (map fst items)"
    using k0 by (auto intro: filter_cong)
  with Cons.IH [OF dist] p show ?case
    by (auto simp: add_key_def update_keys dom_update map_of_eq_None_iff dict_simps split: option.splits)
qed

lemma load_items_own_targets:
  "\<forall>(k, t) \<in> set items. \<exists>e. map_of (keys kb) k = Some e \<and> button_mapping e = t \<Longrightarrow>
   load_items kb items = kb"
  by (induction items) (auto simp: update_same_value)

lemma keys_pack_keys [simp]: "map fst (keys_pack kb) = map fst (keys kb)"
  by (simp add: keys_pack_def comp_def case_prod_beta)

lemma map_of_keys_pack: "map_of (keys_pack kb) k = map_option button_mapping (map_of (keys kb) k)"
  by (simp add: keys_pack_def map_of_map)

lemma load_items_invariants:
  "dict_inv (keys kb) \<Longrightarrow> latch_inv (keys kb) \<Longrightarrow>
   dict_inv (keys (load_items kb items)) \<and> latch_inv (keys (load_items kb items))"
proof (induction items arbitrary: kb)
  case Nil
  then show ?case by simp
next
  case (Cons p items)
  obtain k v where p: "p = (k, v)" by fastforce
  show ?case
  proof (cases "map_of (keys kb) k")
    case None
    with Cons.prems methods_keep_invariants(1) [of kb k "Some v" True]
    show ?thesis by (simp add: p Cons.IH)
  next
    case (Some e)
    let ?kb' = "kb\<lparr>keys := AList.update k (e\<lparr>button_mapping := v\<rparr>) (keys kb)\<rparr>"
    have "dict_inv (keys ?kb')" using Cons.prems(1) by (simp add: dict_simps)
    moreover have "(k, e) \<in> set (keys kb)" using Some by (rule map_of_SomeD)
    then have "toggle_state e \<longrightarrow> is_pressed e" using Cons.prems(2) by (blast dest: latch_inv_entry)
    with Cons.prems(2) have "latch_inv (keys ?kb')" by (simp add: latch_inv_update)
    ultimately show ?thesis using Some by (simp add: p Cons.IH)
  qed
qed


text \<open>C12: \<open>load_keys\<close> on a parsed mapping with distinct keys merges it into the
  object: a known key gets the loaded target and keeps its press state, latch, toggle
  mode and callbacks; an unknown key gets a fresh entry in edge mode with empty lists,
  mapped to the loaded target (to itself if that target is empty); every other key
  is left as it was.\<close>

theorem load_keys_merge:
  "distinct (map fst items) \<Longrightarrow>
   map_of (keys (snd (load_keys kb (Some items)))) k =
   (case map_of items k of
      None \<Rightarrow> map_of (keys kb) k
    | Some v \<Rightarrow> Some (case map_of (keys kb) k of
                       None \<Rightarrow> new_entry (if v = [] then k else v) True
                     | Some e \<Rightarrow> e\<lparr>button_mapping := v\<rparr>))"
  by (simp add: load_keys_def load_items_lookup)

text \<open>C15: the keys that \<open>load_keys\<close> adds are appended after the existing ones, in the
  order of the loaded mapping, so the order in which \<open>update\<close> visits the old keys
  does not change.\<close>

theorem load_keys_appends_new_keys:
  "distinct (map fst items) \<Longrightarrow>
   map fst (keys (snd (load_keys kb (Some items)))) =
   map fst (keys kb) @ filter (\<lambda>k. k \<notin> fst ` set (keys kb)) (map fst items)"
  by (simp add: load_keys_def load_items_keys)

lemma alist_eqI:
  "map fst xs = map fst ys \<Longrightarrow> distinct (map fst xs) \<Longrightarrow> map_of xs = map_of ys \<Longrightarrow> xs = ys"
proof (induction xs arbitrary: ys)
  case Nil
  then show ?case by simp
next
  case (Cons p xs)
  obtain k v where p: "p = (k, v)" by fastforce
  from Cons.prems(1) p obtain w ys' where ys: "ys = (k, w) # ys'" "map fst xs = map fst ys'"
    by (cases ys) auto
  from Cons.prems(3) p ys(1) have vw: "v = w" by (metis fun_upd_same map_of_Cons_code(2) option.inject)
  have kx: "k \<notin> set (map fst xs)" using Cons.prems(2) p by simp
  have "map_of xs = map_of ys'"
  proof
    fix k'
    show "map_of xs k' = map_of ys' k'"
    proof (cases "k' = k")
      case True
      have "map_of xs k = None" using kx by (simp add: map_of_eq_None_iff)
      moreover have "map_of ys' k = None" using kx ys(2) by (simp add: map_of_eq_None_iff)
      ultimately show ?thesis using True by simp
    next
      case False
      with Cons.prems(3) p ys(1) show ?thesis by (metis map_of_Cons_code(2))
    qed
  qed
  with Cons.IH [OF ys(2)] Cons.prems(2) p ys(1) vw show ?case by simp
qed

lemma map_of_zip_keyed:
  "map fst xs = map fst ys \<Longrightarrow>
   map_of (map (\<lambda>((k, e), (_, e1)). (k, g e e1)) (zip xs ys)) k =
   (case map_of xs k of None \<Rightarrow> None | Some e \<Rightarrow> (case map_of ys k of None \<Rightarrow> None | Some e1 \<Rightarrow> Some (g e e1)))"
proof (induction xs arbitrary: ys)
  case Nil
  then show ?case by simp
next
  case (Cons p xs)
  then obtain q ys' where ys: "ys = q # ys'" "fst p = fst q" and m: "map fst xs = map fst ys'" by (cases ys) auto
  note ih = Cons.IH [OF m]
  obtain a x y where pq: "p = (a, x)" "q = (a, y)" using ys(2) by (cases p; cases q) auto
  show ?case unfolding ys(1) pq using ih by (simp split: option.split)
qed

lemma map_fst_zip_keyed:
  "length xs = length ys \<Longrightarrow> map fst (map (\<lambda>((k, e), (_, e1)). (k, g e e1)) (zip xs ys)) = map fst xs"
  by (induction xs ys rule: list_induct2) auto

lemma load_items_title: "APP_TITLE (load_items kb items) = APP_TITLE kb"
  by (induction items arbitrary: kb) (auto simp: add_key_def split: option.splits)

text \<open>C11: saving an object and loading the saved mapping into any object with the
  same keys in the same order (the object itself included) reports success and gives
  that object with the saved object's targets: each entry keeps its press flag,
  latch, toggle mode and callbacks, and takes the target of the saved object's entry
  for the same key.\<close>

theorem save_load_roundtrip:
  assumes d1: "dict_inv (keys kb1)" and s: "save_keys True kb1 = Inr d"
    and same: "map fst (keys kb2) = map fst (keys kb1)"
  shows "load_keys kb2 (Some d) =
         (True, kb2\<lparr>keys := map (\<lambda>((k, e), (_, e1)). (k, e\<lparr>button_mapping := button_mapping e1\<rparr>))
                                  (zip (keys kb2) (keys kb1))\<rparr>)"
proof -
  let ?T = "map (\<lambda>((k, e), (_, e1)). (k, e\<lparr>button_mapping := button_mapping e1\<rparr>)) (zip (keys kb2) (keys kb1))"
  have d: "d = keys_pack kb1" using s by (simp add: save_keys_def)
  have dd: "distinct (map fst d)" using d1 by (simp add: d)
  have sub: "filter (\<lambda>k. k \<notin> fst ` set (keys kb2)) (map fst d) = []"
  proof -
    have "fst ` set (keys kb2) = fst ` set (keys kb1)" using arg_cong [OF same, of set] by simp
    then show ?thesis using d by (simp add: filter_empty_conv)
  qed
  have kR: "map fst (keys (load_items kb2 d)) = map fst (keys kb2)"
    using load_items_keys [OF dd, of kb2] sub by simp
  have "length (keys kb2) = length (keys kb1)" using same by (metis length_map)
  then have lenT: "map fst ?T = map fst (keys kb2)" by (rule map_fst_zip_keyed)
  have none: "map_of (keys kb2) k = None \<longleftrightarrow> map_of (keys kb1) k = None" for k
  proof -
    have "fst ` set (keys kb2) = fst ` set (keys kb1)" using arg_cong [OF same, of set] by simp
    then show ?thesis by (simp add: map_of_eq_None_iff)
  qed
  have "map_of (keys (load_items kb2 d)) k = map_of ?T k" for k
    using none [of k]
    unfolding d using dd d
    by (auto simp: load_items_lookup map_of_zip_keyed [OF same] map_of_keys_pack split: option.splits)
  then have "keys (load_items kb2 d) = ?T"
    using kR lenT d1 same by (intro alist_eqI) auto
  moreover have "APP_TITLE (load_items kb2 d) = APP_TITLE kb2" by (rule load_items_title)
  ultimately show ?thesis by (cases kb2) (simp add: load_keys_def)
qed

section \<open>Witnesses\<close>

theorem save_load_roundtrip_witness:
  "dict_inv (keys demo_kb) \<and> save_keys True demo_kb = Inr (keys_pack demo_kb) \<and>
   map fst (keys (demo_kb\<lparr>keys := [(''a'', (demo_entry True)\<lparr>button_mapping := ''z'', is_pressed := True\<rparr>),
                                  (''b'', new_entry ''q'' False)]\<rparr>)) = map fst (keys demo_kb) \<and>
   load_keys (demo_kb\<lparr>keys := [(''a'', (demo_entry True)\<lparr>button_mapping := ''z'', is_pressed := True\<rparr>),
                                (''b'', new_entry ''q'' False)]\<rparr>) (Some (keys_pack demo_kb)) =
   (True, demo_kb\<lparr>keys := [(''a'', (demo_entry True)\<lparr>is_pressed := True\<rparr>), (''b'', new_entry ''b'' False)]\<rparr>)"
  using save_load_roundtrip [of demo_kb "keys_pack demo_kb"
       "demo_kb\<lparr>keys := [(''a'', (demo_entry True)\<lparr>button_mapping := ''z'', is_pressed := True\<rparr>),
                                  (''b'', new_entry ''q'' False)]\<rparr>"]
  by (simp add: demo_kb_def demo_entry_def new_entry_def save_keys_def)

theorem load_keys_merge_witness:
  "distinct (map fst [(''a'', ''c''), (''x'', '''')]) \<and>
   map_of (keys (snd (load_keys demo_kb (Some [(''a'', ''c''), (''x'', '''')])))) ''x'' = Some (new_entry ''x'' True)"
  using load_keys_merge [of "[(''a'', ''c''), (''x'', '''')]" demo_kb "''x''"]
  by (simp add: demo_kb_def)

theorem load_keys_appends_new_keys_witness:
  "distinct (map fst [(''a'', ''c''), (''x'', '''')]) \<and>
   map fst (keys (snd (load_keys demo_kb (Some [(''a'', ''c''), (''x'', '''')])))) = [''a'', ''b'', ''x'']"
  using load_keys_appends_new_keys [of "[(''a'', ''c''), (''x'', '''')]" demo_kb]
  by (simp add: demo_kb_def)

end
