(* ===== verification/KB_Abstract.thy ===== *)
theory KB_Abstract
  imports KB_Registry
begin

text \<open>
  The contract of the mutation API (section 4.2 of the specification) on an abstract
  registry: a finite map from key identifiers to entries, with no order and no
  representation. Every operation that names an absent key fails and changes nothing;
  every other operation edits exactly the named entries. The refinement theorem says
  that each method of the class, acting on the insertion-ordered dict, has the
  contract's effect on the map that the dict denotes, \<open>kb_map\<close>.
\<close>

type_synonym 'cb registry_map = "key \<rightharpoonup> 'cb key_entry"

definition kb_map :: "'cb keyboard_binding \<Rightarrow> 'cb registry_map" where
  "kb_map kb = map_of (keys kb)"

text \<open>An operation on one existing entry: fails on an absent key.\<close>

definition spec_edit :: "'cb registry_map \<Rightarrow> key \<Rightarrow> ('cb key_entry \<Rightarrow> 'cb key_entry) \<Rightarrow> bool \<times> 'cb registry_map" where
  "spec_edit m k f = (case m k of None \<Rightarrow> (False, m) | Some e \<Rightarrow> (True, m(k \<mapsto> f e)))"

definition spec_add_key :: "'cb registry_map \<Rightarrow> key \<Rightarrow> key option \<Rightarrow> bool \<Rightarrow> 'cb registry_map" where
  "spec_add_key m k target toggle =
     m(k \<mapsto> \<lparr>button_mapping = (case target of None \<Rightarrow> k | Some t \<Rightarrow> t), is_pressed = False,
            toggle_state = False, toggle_enable = toggle, head_funcs = [], tail_funcs = []\<rparr>)"

definition spec_remove_key :: "'cb registry_map \<Rightarrow> key \<Rightarrow> bool \<times> 'cb registry_map" where
  "spec_remove_key m k = (if m k = None then (False, m) else (True, m(k := None)))"

definition spec_change_toggle :: "'cb key_entry \<Rightarrow> 'cb key_entry" where
  "spec_change_toggle e = e\<lparr>toggle_enable := \<not> toggle_enable e\<rparr>"

definition spec_remap :: "key \<Rightarrow> 'cb key_entry \<Rightarrow> 'cb key_entry" where
  "spec_remap t e = e\<lparr>button_mapping := t\<rparr>"

definition spec_bind :: "'cb option \<Rightarrow> 'cb option \<Rightarrow> bool \<Rightarrow> 'cb key_entry \<Rightarrow> 'cb key_entry" where
  "spec_bind h t toggle e =
     e\<lparr>toggle_enable := toggle,
       head_funcs := (case h of None \<Rightarrow> [] | Some f \<Rightarrow> [f]) @ head_funcs e,
       tail_funcs := (case t of None \<Rightarrow> [] | Some f \<Rightarrow> [f]) @ tail_funcs e\<rparr>"

definition spec_bulk_bind :: "'cb list option \<Rightarrow> 'cb list option \<Rightarrow> bool \<Rightarrow> 'cb key_entry \<Rightarrow> 'cb key_entry" where
  "spec_bulk_bind hs ts toggle e =
     e\<lparr>toggle_enable := toggle,
       head_funcs := head_funcs e @ (case hs of None \<Rightarrow> [] | Some l \<Rightarrow> l),
       tail_funcs := tail_funcs e @ (case ts of None \<Rightarrow> [] | Some l \<Rightarrow> l)\<rparr>"

definition spec_clear :: "'cb key_entry \<Rightarrow> 'cb key_entry" where
  "spec_clear e = e\<lparr>head_funcs := [], tail_funcs := []\<rparr>"

text \<open>\<open>removeBinding\<close>: fails when the key is absent or the action does not occur in
  the selected list; otherwise removes its first occurrence.\<close>

definition spec_remove_binding :: "'cb registry_map \<Rightarrow> key \<Rightarrow> bool \<Rightarrow> 'cb \<Rightarrow> bool \<times> 'cb registry_map" where
  "spec_remove_binding m k from_head f =
     (case m k of
        None \<Rightarrow> (False, m)
      | Some e \<Rightarrow>
          (let l = (if from_head then head_funcs e else tail_funcs e)
           in if f \<notin> set l then (False, m)
              else (True, m(k \<mapsto> (if from_head then e\<lparr>head_funcs := remove1 f l\<rparr>
                                    else e\<lparr>tail_funcs := remove1 f l\<rparr>)))))"

text \<open>\<open>swapBindings\<close>: exchanges the two callback lists between the entries, keeping
  toggle mode and target; fails if either key is absent.\<close>

definition spec_swap :: "'cb registry_map \<Rightarrow> key \<Rightarrow> key \<Rightarrow> bool \<times> 'cb registry_map" where
  "spec_swap m a b =
     (case (m a, m b) of
        (Some ea, Some eb) \<Rightarrow>
          (True, m(a \<mapsto> ea\<lparr>head_funcs := head_funcs eb, tail_funcs := tail_funcs eb\<rparr>,
                   b \<mapsto> eb\<lparr>head_funcs := head_funcs ea, tail_funcs := tail_funcs ea\<rparr>))
      | _ \<Rightarrow> (False, m))"

definition spec_get :: "'cb registry_map \<Rightarrow> key \<Rightarrow> ('cb list \<times> 'cb list) option" where
  "spec_get m k = map_option (\<lambda>e. (head_funcs e, tail_funcs e)) (m k)"

definition lift_result :: "bool \<times> 'cb keyboard_binding \<Rightarrow> bool \<times> 'cb registry_map" where
  "lift_result r = (fst r, kb_map (snd r))"

section \<open>Refinement\<close>

lemma kb_map_update [simp]: "kb_map (kb\<lparr>keys := AList.update k v (keys kb)\<rparr>) = (kb_map kb)(k \<mapsto> v)"
  by (simp add: kb_map_def update_conv')

lemma kb_map_delete [simp]: "kb_map (kb\<lparr>keys := AList.delete k (keys kb)\<rparr>) = (kb_map kb)(k := None)"
  by (simp add: kb_map_def delete_conv')

lemma refine_edits:
  "lift_result (change_toggle kb k) = spec_edit (kb_map kb) k spec_change_toggle"
  "lift_result (remap kb k t) = spec_edit (kb_map kb) k (spec_remap t)"
  "lift_result (bind_kb kb k hf tf tg) = spec_edit (kb_map kb) k (spec_bind hf tf tg)"
  "lift_result (bulk_bind kb k hl tls tg) = spec_edit (kb_map kb) k (spec_bulk_bind hl tls tg)"
  "lift_result (clear_bind kb k) = spec_edit (kb_map kb) k spec_clear"
  by (simp_all add: method_defs lift_result_def spec_edit_def spec_change_toggle_def spec_remap_def
        spec_bind_def spec_bulk_bind_def spec_clear_def Let_def flip: kb_map_def split: option.split)

lemma refine_remove_key: "lift_result (remove_key kb k) = spec_remove_key (kb_map kb) k"
  by (simp add: remove_key_def spec_remove_key_def lift_result_def flip: kb_map_def split: option.split)

lemma refine_swap: "lift_result (swap_binds kb a b) = spec_swap (kb_map kb) a b"
  by (simp add: swap_binds_def spec_swap_def lift_result_def Let_def kb_map_def update_conv' fun_upd_def
      split: option.split)

lemma refine_get: "get_binds kb k = spec_get (kb_map kb) k"
  by (simp add: get_binds_def spec_get_def kb_map_def)

lemma refine_add_key:
  "kb_map (add_key kb k t tg) = spec_add_key (kb_map kb) k (case t of Some [] \<Rightarrow> None | _ \<Rightarrow> t) tg"
  by (simp add: add_key_def spec_add_key_def new_entry_def split: option.split list.split)

lemma refine_remove_bind:
  "map_sum id lift_result (remove_bind kb k ht f) =
   (if kb_map kb k = None then Inl TypeError else Inr (spec_remove_binding (kb_map kb) k ht f))"
  by (simp add: remove_bind_def spec_remove_binding_def lift_result_def remove_loop_remove1 Let_def
      flip: kb_map_def split: option.split)

text \<open>C17: every method of the mutation API refines the contract of section 4.2:
  on the map that the dict denotes, \<open>change_toggle\<close>, \<open>remap\<close>, \<open>bind\<close>,
  \<open>bulk_bind\<close> and \<open>clear_bind\<close> fail on an absent key and otherwise edit
  only that key's entry as the contract says; \<open>remove_key\<close>, \<open>swap_binds\<close> and
  \<open>get_binds\<close> behave as the contract's operations; \<open>add_key\<close> installs a
  fresh entry, reading an empty target as no target; and \<open>remove_bind\<close> behaves
  as the contract's \<open>removeBinding\<close> on a registered key but raises
  \<open>TypeError\<close> on an absent one, where the contract fails.\<close>

theorem mutation_api_refines_spec:
  "lift_result (change_toggle kb k) = spec_edit (kb_map kb) k spec_change_toggle \<and>
   lift_result (remap kb k t) = spec_edit (kb_map kb) k (spec_remap t) \<and>
   lift_result (bind_kb kb k hf tf tg) = spec_edit (kb_map kb) k (spec_bind hf tf tg) \<and>
   lift_result (bulk_bind kb k hl tls tg) = spec_edit (kb_map kb) k (spec_bulk_bind hl tls tg) \<and>
   lift_result (clear_bind kb k) = spec_edit (kb_map kb) k spec_clear \<and>
   lift_result (remove_key kb k) = spec_remove_key (kb_map kb) k \<and>
   lift_result (swap_binds kb a b) = spec_swap (kb_map kb) a b \<and>
   get_binds kb k = spec_get (kb_map kb) k \<and>
   kb_map (add_key kb k r tg) = spec_add_key (kb_map kb) k (case r of Some [] \<Rightarrow> None | _ \<Rightarrow> r) tg \<and>
   map_sum id lift_result (remove_bind kb k ht f) =
     (if kb_map kb k = None then Inl TypeError else Inr (spec_remove_binding (kb_map kb) k ht f))"
  by (simp add: refine_edits refine_remove_key refine_swap refine_get refine_add_key refine_remove_bind)

end
