(* ===== verification/KB_Effects.thy ===== *)
theory KB_Effects
  imports KB_Session
begin

text \<open>The callbacks of \<open>update\<close> (src/Keyboard_binding.py) run while the object is
  being polled, and a callback may call the object's own binding methods: \<open>bind\<close>,
  \<open>bulk_bind\<close>, \<open>clear_bind\<close>, \<open>remove_bind\<close>, \<open>swap_binds\<close>, \<open>remap\<close> and
  \<open>change_toggle\<close>. None of these replaces an entry list object of the dict, so
  the entry \<open>update\<close> resolved stays the entry of its key and a value model of the
  dict is faithful. This theory gives each callback the list of method calls it makes
  (\<open>eff\<close>) and models \<open>update\<close> on the live object: \<open>__call_bind\<close> is the loop
  \<open>for i in range(len(l)): l[i]()\<close>, whose bound is fixed when the loop starts and which
  reads the list afresh at every index, raising \<open>IndexError\<close> past its end; the
  press flag and the latch are written in place, around the loops. Without effects
  the model is the one of KB_Update (C28); with them, a callback that unbinds itself
  skips its successor and crashes the poll (C29), one that binds a new head callback
  to its own key is called again at every index (C31), and whatever the callbacks do,
  a loop makes at most the number of calls fixed at its start (C30).\<close>

section \<open>Callbacks that call the binding methods\<close>

datatype 'cb bind_op =
    OpBind key "'cb option" "'cb option" bool
  | OpBulkBind key "'cb list option" "'cb list option" bool
  | OpClearBind key
  | OpRemoveBind key bool 'cb
  | OpSwapBinds key key
  | OpRemap key key
  | OpChangeToggle key

fun exec_bind_op :: "'cb bind_op \<Rightarrow> 'cb keyboard_binding \<Rightarrow> py_error + 'cb keyboard_binding" where
  "exec_bind_op (OpBind k h t tg) kb = Inr (snd (bind_kb kb k h t tg))"
| "exec_bind_op (OpBulkBind k hl tls tg) kb = Inr (snd (bulk_bind kb k hl tls tg))"
| "exec_bind_op (OpClearBind k) kb = Inr (snd (clear_bind kb k))"
| "exec_bind_op (OpRemoveBind k ht f) kb = (case remove_bind kb k ht f of Inl err \<Rightarrow> Inl err | Inr (_, kb') \<Rightarrow> Inr kb')"
| "exec_bind_op (OpSwapBinds a b) kb = Inr (snd (swap_binds kb a b))"
| "exec_bind_op (OpRemap k t) kb = Inr (snd (remap kb k t))"
| "exec_bind_op (OpChangeToggle k) kb = Inr (snd (change_toggle kb k))"

fun exec_bind_ops ::
  "'cb bind_op list \<Rightarrow> 'cb keyboard_binding \<Rightarrow> (py_error \<times> 'cb keyboard_binding) + 'cb keyboard_binding" where
  "exec_bind_ops [] kb = Inr kb"
| "exec_bind_ops (op # ops) kb =
     (case exec_bind_op op kb of Inl err \<Rightarrow> Inl (err, kb) | Inr kb' \<Rightarrow> exec_bind_ops ops kb')"

datatype 'cb exc = Raised 'cb | PyError py_error

type_synonym 'cb live_outcome = "('cb exc \<times> 'cb keyboard_binding \<times> 'cb list) + ('cb keyboard_binding \<times> 'cb list)"

section \<open>The callback loop on the live list\<close>

definition entry_list :: "bool \<Rightarrow> 'cb key_entry option \<Rightarrow> 'cb list" where
  "entry_list from_head eo = (case eo of None \<Rightarrow> [] | Some e \<Rightarrow> if from_head then head_funcs e else tail_funcs e)"

function call_bind_live ::
  "('cb \<Rightarrow> bool) \<Rightarrow> ('cb \<Rightarrow> 'cb bind_op list) \<Rightarrow> key \<Rightarrow> bool \<Rightarrow> nat \<Rightarrow> nat \<Rightarrow>
   'cb keyboard_binding \<Rightarrow> 'cb list \<Rightarrow> 'cb live_outcome" where
  "call_bind_live ok eff rk from_head n i kb tr =
     (if i < n then
        (let l = entry_list from_head (map_of (keys kb) rk) in
         if i < length l then
           (let f = l ! i in
            if ok f then
              (case exec_bind_ops (eff f) kb of
                 Inl (err, kb') \<Rightarrow> Inl (PyError err, kb', tr @ [f])
               | Inr kb' \<Rightarrow> call_bind_live ok eff rk from_head n (Suc i) kb' (tr @ [f]))
            else Inl (Raised f, kb, tr @ [f]))
         else Inl (PyError IndexError, kb, tr))
      else Inr (kb, tr))"
  by pat_completeness auto
termination
  by (relation "measure (\<lambda>(ok, eff, rk, from_head, n, i, kb, tr). Suc n - i)") auto

declare call_bind_live.simps [simp del]

section \<open>\<open>update\<close> on the live object\<close>

definition write_entry :: "key \<Rightarrow> ('cb key_entry \<Rightarrow> 'cb key_entry) \<Rightarrow> 'cb keyboard_binding \<Rightarrow> 'cb keyboard_binding" where
  "write_entry rk g kb = kb\<lparr>keys := AList.map_entry rk g (keys kb)\<rparr>"

definition set_latch_after :: "key \<Rightarrow> 'cb live_outcome \<Rightarrow> 'cb live_outcome" where
  "set_latch_after rk r =
     (case r of Inl x \<Rightarrow> Inl x | Inr (kb, tr) \<Rightarrow> Inr (write_entry rk (\<lambda>x. x\<lparr>toggle_state := True\<rparr>) kb, tr))"

definition update_key_live ::
  "('cb \<Rightarrow> bool) \<Rightarrow> ('cb \<Rightarrow> 'cb bind_op list) \<Rightarrow> (key \<Rightarrow> bool) \<Rightarrow> key \<Rightarrow>
   'cb keyboard_binding \<times> 'cb list \<Rightarrow> 'cb live_outcome" where
  "update_key_live ok eff pressed k w =
     (case w of (kb, tr) \<Rightarrow>
        (case map_of (keys kb) k of
           None \<Rightarrow> Inr (kb, tr)
         | Some v \<Rightarrow>
             (case resolve (keys kb) k v of (rk, e) \<Rightarrow>
                (if pressed k then
                   (let kb1 = write_entry rk (\<lambda>x. x\<lparr>is_pressed := True\<rparr>) kb in
                    if toggle_enable e then
                      (if \<not> toggle_state e
                       then set_latch_after rk (call_bind_live ok eff rk True (length (head_funcs e)) 0 kb1 tr)
                       else Inr (kb1, tr))
                    else set_latch_after rk (call_bind_live ok eff rk True (length (head_funcs e)) 0 kb1 tr))
                 else
                   (let kb1 = write_entry rk (\<lambda>x. x\<lparr>is_pressed := False\<rparr>) kb in
                    if toggle_state e then
                      call_bind_live ok eff rk False (length (tail_funcs e)) 0
                        (write_entry rk (\<lambda>x. x\<lparr>toggle_state := False\<rparr>) kb1) tr
                    else Inr (kb1, tr))))))"

fun update_loop_live ::
  "('cb \<Rightarrow> bool) \<Rightarrow> ('cb \<Rightarrow> 'cb bind_op list) \<Rightarrow> (key \<Rightarrow> bool) \<Rightarrow> key list \<Rightarrow>
   'cb keyboard_binding \<times> 'cb list \<Rightarrow> 'cb live_outcome" where
  "update_loop_live ok eff pressed [] w = Inr w"
| "update_loop_live ok eff pressed (k # ks) w =
     (case update_key_live ok eff pressed k w of Inl x \<Rightarrow> Inl x | Inr w' \<Rightarrow> update_loop_live ok eff pressed ks w')"

definition update_kb_live ::
  "string option \<Rightarrow> ('cb \<Rightarrow> bool) \<Rightarrow> ('cb \<Rightarrow> 'cb bind_op list) \<Rightarrow> (key \<Rightarrow> bool) \<Rightarrow> 'cb keyboard_binding \<Rightarrow>
   'cb live_outcome" where
  "update_kb_live active ok eff pressed kb =
     (if \<not> is_app_active active (APP_TITLE kb) then Inr (kb, [])
      else update_loop_live ok eff pressed (map fst (keys kb)) (kb, []))"

definition lift_keys :: "'cb keyboard_binding \<Rightarrow> ('cb, (key, 'cb key_entry) dict \<times> 'cb list) outcome \<Rightarrow> 'cb live_outcome" where
  "lift_keys kb r =
     (case r of Inl (f, ks, tr) \<Rightarrow> Inl (Raised f, kb\<lparr>keys := ks\<rparr>, tr) | Inr (ks, tr) \<Rightarrow> Inr (kb\<lparr>keys := ks\<rparr>, tr))"

text \<open>The outcome of the model of KB_Update, where only a callback can raise, in the
  type of this theory.\<close>

definition lift_outcome :: "('cb, 'cb keyboard_binding \<times> 'cb list) outcome \<Rightarrow> 'cb live_outcome" where
  "lift_outcome r = (case r of Inl (f, s) \<Rightarrow> Inl (Raised f, s) | Inr s \<Rightarrow> Inr s)"

text \<open>The callbacks a poll called, whether it returned or raised.\<close>

definition live_trace :: "'cb live_outcome \<Rightarrow> 'cb list" where
  "live_trace r = (case r of Inl (_, _, tr) \<Rightarrow> tr | Inr (_, tr) \<Rightarrow> tr)"

section \<open>Without effects, the live model is the model of KB_Update\<close>

lemma map_entry_present:
  "map_of xs k = Some v \<Longrightarrow> AList.map_entry k f xs = AList.update k (f v) xs"
  by (induction xs) (auto split: if_splits)

lemma write_entry_present:
  "map_of (keys kb) rk = Some e \<Longrightarrow> write_entry rk g kb = kb\<lparr>keys := AList.update rk (g e) (keys kb)\<rparr>"
  by (simp add: write_entry_def map_entry_present)

lemma call_bind_live_no_effects:
  "map_of (keys kb) rk = Some e \<Longrightarrow> n = length (entry_list from_head (Some e)) \<Longrightarrow>
   call_bind_live ok (\<lambda>_. []) rk from_head n i kb tr =
   (case call_bind ok (drop i (entry_list from_head (Some e))) tr of
      Inl (f, tr') \<Rightarrow> Inl (Raised f, kb, tr') | Inr tr' \<Rightarrow> Inr (kb, tr'))"
proof (induction "n - i" arbitrary: i tr)
  case 0
  then show ?case by (simp add: call_bind_live.simps)
next
  case (Suc m)
  then have i: "i < length (entry_list from_head (Some e))" by simp
  then have d: "drop i (entry_list from_head (Some e)) =
                entry_list from_head (Some e) ! i # drop (Suc i) (entry_list from_head (Some e))"
    by (simp add: Cons_nth_drop_Suc)
  have IH: "call_bind_live ok (\<lambda>_. []) rk from_head n (Suc i) kb tr' =
      (case call_bind ok (drop (Suc i) (entry_list from_head (Some e))) tr' of
         Inl (f, tr'') \<Rightarrow> Inl (Raised f, kb, tr'') | Inr tr'' \<Rightarrow> Inr (kb, tr''))" for tr'
    using Suc by simp
  show ?case
    using Suc.prems i IH by (subst call_bind_live.simps) (simp add: d Let_def)
qed

lemma lift_keys_simps [simp]:
  "lift_keys kb (Inl (f, ks, tr)) = Inl (Raised f, kb\<lparr>keys := ks\<rparr>, tr)"
  "lift_keys kb (Inr (ks, tr)) = Inr (kb\<lparr>keys := ks\<rparr>, tr)"
  by (simp_all add: lift_keys_def)

lemma lift_keys_update [simp]: "lift_keys (kb\<lparr>keys := ks\<rparr>) r = lift_keys kb r"
  by (simp add: lift_keys_def split: sum.split prod.split)

lemma update_key_live_no_effects:
  "update_key_live ok (\<lambda>_. []) p k (kb, tr) = lift_keys kb (update_key ok p k (keys kb, tr))"
proof (cases "map_of (keys kb) k")
  case None
  then show ?thesis by (simp add: update_key_live_def update_key_def lift_keys_def)
next
  case (Some v)
  obtain rk e where r: "resolve (keys kb) k v = (rk, e)" by fastforce
  have e: "map_of (keys kb) rk = Some e" by (rule resolve_found [OF Some r])
  have h: "call_bind_live ok (\<lambda>_. []) rk True (length (head_funcs e)) 0
             (write_entry rk (\<lambda>x. x\<lparr>is_pressed := True\<rparr>) kb) tr =
           (case call_bind ok (head_funcs e) tr of
              Inl (f, tr') \<Rightarrow> Inl (Raised f, write_entry rk (\<lambda>x. x\<lparr>is_pressed := True\<rparr>) kb, tr')
            | Inr tr' \<Rightarrow> Inr (write_entry rk (\<lambda>x. x\<lparr>is_pressed := True\<rparr>) kb, tr'))"
    using call_bind_live_no_effects [of "write_entry rk (\<lambda>x. x\<lparr>is_pressed := True\<rparr>) kb" rk
        "e\<lparr>is_pressed := True\<rparr>" "length (head_funcs e)" True ok 0 tr] e
    by (simp add: write_entry_present entry_list_def)
  have t: "call_bind_live ok (\<lambda>_. []) rk False (length (tail_funcs e)) 0
             (write_entry rk (\<lambda>x. x\<lparr>toggle_state := False\<rparr>) (write_entry rk (\<lambda>x. x\<lparr>is_pressed := False\<rparr>) kb)) tr =
           (case call_bind ok (tail_funcs e) tr of
              Inl (f, tr') \<Rightarrow> Inl (Raised f, kb\<lparr>keys := AList.update rk (e\<lparr>is_pressed := False, toggle_state := False\<rparr>) (keys kb)\<rparr>, tr')
            | Inr tr' \<Rightarrow> Inr (kb\<lparr>keys := AList.update rk (e\<lparr>is_pressed := False, toggle_state := False\<rparr>) (keys kb)\<rparr>, tr'))"
    using call_bind_live_no_effects [of "kb\<lparr>keys := AList.update rk (e\<lparr>is_pressed := False, toggle_state := False\<rparr>) (keys kb)\<rparr>"
        rk "e\<lparr>is_pressed := False, toggle_state := False\<rparr>" "length (tail_funcs e)" False ok 0 tr] e
    by (simp add: write_entry_present entry_list_def dict_simps)
  show ?thesis
    using Some r e h t
    by (auto simp: update_key_live_def update_key_def poll_entry_def fire_head_def Let_def set_latch_after_def
        lift_keys_def write_entry_present dict_simps split: sum.split)
qed

lemma update_loop_live_no_effects:
  "update_loop_live ok (\<lambda>_. []) p ks (kb, tr) = lift_keys kb (update_loop ok p ks (keys kb, tr))"
proof (induction ks arbitrary: kb tr)
  case Nil
  then show ?case by simp
next
  case (Cons k ks)
  show ?case
  proof (cases "update_key ok p k (keys kb, tr)")
    case (Inl x)
    obtain f ks' tr' where "x = (f, ks', tr')" by (cases x) auto
    with Inl show ?thesis by (simp add: update_key_live_no_effects)
  next
    case (Inr w)
    obtain ks' tr' where w: "w = (ks', tr')" by fastforce
    with Inr Cons.IH [of "kb\<lparr>keys := ks'\<rparr>" tr'] show ?thesis
      by (simp add: update_key_live_no_effects)
  qed
qed

text \<open>C28: when no callback calls a method of the object, \<open>update\<close> on the live
  object, which writes the press flag and the latch in place and reads the callback
  list afresh at every index, is the \<open>update\<close> of KB_Update, which polls a copy of
  the resolved entry and writes it back: the two models agree on every registry,
  focus, sample and set of raising callbacks.\<close>

theorem update_kb_live_no_effects:
  "update_kb_live active ok (\<lambda>_. []) p kb = lift_outcome (update_kb active ok p kb)"
  by (simp add: update_kb_live_def update_kb_def update_loop_live_no_effects lift_keys_def lift_outcome_def
      split: sum.split prod.split)

section \<open>The loop makes at most the calls fixed at its start\<close>

text \<open>C30: \<open>__call_bind\<close> stops whatever its callbacks do to the object: the loop
  started at index \<open>i\<close> with bound \<open>n\<close> (\<open>range(len(l))\<close>, evaluated once) calls at most
  \<open>n - i\<close> callbacks, also when they grow the list it walks, and every outcome (a
  return, a raising callback, a raising method, an index past the end) extends the
  trace it was given.\<close>

theorem call_bind_live_call_bound:
  "\<exists>ts. live_trace (call_bind_live ok eff rk from_head n i kb tr) = tr @ ts \<and> length ts \<le> n - i"
proof (induction ok eff rk from_head n i kb tr rule: call_bind_live.induct)
  case (1 ok eff rk from_head n i kb tr)
  show ?case
  proof (cases "i < n \<and> i < length (entry_list from_head (map_of (keys kb) rk))")
    case False
    then show ?thesis
      by (subst call_bind_live.simps) (auto simp: Let_def live_trace_def)
  next
    case True
    let ?f = "entry_list from_head (map_of (keys kb) rk) ! i"
    show ?thesis
    proof (cases "ok ?f")
      case False
      with True show ?thesis
        by (subst call_bind_live.simps) (auto simp: Let_def live_trace_def)
    next
      case okf: True
      show ?thesis
      proof (cases "exec_bind_ops (eff ?f) kb")
        case (Inl x)
        with True okf show ?thesis
          by (subst call_bind_live.simps) (auto simp: Let_def live_trace_def split: prod.split)
      next
        case (Inr kb')
        obtain ts where "live_trace (call_bind_live ok eff rk from_head n (Suc i) kb' (tr @ [?f])) = (tr @ [?f]) @ ts"
          "length ts \<le> n - Suc i"
          using "1" [OF _ refl _ refl okf Inr] True by auto
        with True okf Inr show ?thesis
          by (subst call_bind_live.simps) (auto simp: Let_def intro!: exI [of _ "?f # ts"])
      qed
    qed
  qed
qed

section \<open>A callback that unbinds itself\<close>

text \<open>Once the list no longer changes and is shorter than the bound fixed at the start,
  the loop calls the rest of the list and then indexes past its end.\<close>

lemma call_bind_live_overrun:
  assumes e: "map_of (keys kb) rk = Some e" and l: "entry_list from_head (Some e) = L"
    and calls: "\<forall>h \<in> set (drop i L). ok h \<and> eff h = []"
    and i: "i \<le> length L" and n: "length L < n"
  shows "call_bind_live ok eff rk from_head n i kb tr = Inl (PyError IndexError, kb, tr @ drop i L)"
  using calls i
proof (induction "length L - i" arbitrary: i tr)
  case 0
  then have "i = length L" by simp
  with e l n show ?case by (subst call_bind_live.simps) (simp add: Let_def)
next
  case (Suc m)
  then have il: "i < length L" by simp
  then have d: "drop i L = L ! i # drop (Suc i) L" by (simp add: Cons_nth_drop_Suc)
  with Suc.prems have h: "ok (L ! i)" "eff (L ! i) = []" by auto
  have "call_bind_live ok eff rk from_head n (Suc i) kb (tr @ [L ! i]) =
        Inl (PyError IndexError, kb, (tr @ [L ! i]) @ drop (Suc i) L)"
    using Suc.hyps(1) [of "Suc i"] Suc.hyps(2) Suc.prems(1) il d by simp
  with e l n il h d show ?case by (subst call_bind_live.simps) (simp add: Let_def)
qed

lemma call_bind_live_self_unbind:
  assumes e: "map_of (keys kb) a = Some e" and h: "head_funcs e = f # g # hs"
    and eff: "eff f = [OpRemoveBind a True f]" "\<forall>h \<in> set hs. eff h = []"
    and ok: "ok f" "\<forall>h \<in> set hs. ok h"
  shows "call_bind_live ok eff a True (length (head_funcs e)) 0 kb tr =
         Inl (PyError IndexError, kb\<lparr>keys := AList.update a (e\<lparr>head_funcs := g # hs\<rparr>) (keys kb)\<rparr>, tr @ f # hs)"
proof -
  let ?kb' = "kb\<lparr>keys := AList.update a (e\<lparr>head_funcs := g # hs\<rparr>) (keys kb)\<rparr>"
  have ops: "exec_bind_ops (eff f) kb = Inr ?kb'"
    using e h eff(1) by (simp add: remove_bind_def remove_loop_remove1)
  have "call_bind_live ok eff a True (length (head_funcs e)) 1 ?kb' (tr @ [f]) =
        Inl (PyError IndexError, ?kb', (tr @ [f]) @ drop 1 (g # hs))"
    by (rule call_bind_live_overrun [of ?kb' a "e\<lparr>head_funcs := g # hs\<rparr>"])
       (use eff(2) ok(2) h in \<open>simp_all add: entry_list_def\<close>)
  then show ?thesis
    using e h ok(1) ops by (subst call_bind_live.simps) (simp add: Let_def entry_list_def)
qed

lemma entry_next_idle: "\<not> toggle_state e \<Longrightarrow> e\<lparr>is_pressed := False\<rparr> = entry_next False e"
  by (cases e) (simp add: entry_next_def)

lemma update_key_live_idle:
  "map_of (keys kb) k = Some e \<Longrightarrow> button_mapping e = k \<Longrightarrow> \<not> toggle_state e \<Longrightarrow> \<not> p k \<Longrightarrow>
   update_key_live ok eff p k (kb, tr) = Inr (kb\<lparr>keys := AList.update k (entry_next False e) (keys kb)\<rparr>, tr)"
  by (simp add: update_key_live_def resolve_self write_entry_present entry_next_idle)

lemma update_loop_live_idle_segment:
  "keys kb = pre @ ys @ post \<Longrightarrow> dict_inv (pre @ ys @ post) \<Longrightarrow>
   \<forall>(k, e) \<in> set ys. button_mapping e = k \<and> \<not> toggle_state e \<and> \<not> p k \<Longrightarrow>
   update_loop_live ok eff p (map fst ys) (kb, tr) = Inr (kb\<lparr>keys := pre @ released ys @ post\<rparr>, tr)"
proof (induction ys arbitrary: pre kb)
  case Nil
  then show ?case by (cases kb) (simp del: map_map)
next
  case (Cons q ys)
  obtain k e where q: "q = (k, e)" by fastforce
  with Cons.prems have e: "button_mapping e = k" "\<not> toggle_state e" "\<not> p k" by auto
  have d: "dict_inv (pre @ (k, e) # ys @ post)" using Cons.prems(2) q by simp
  have kpre: "k \<notin> fst ` set pre" using d by auto
  have step: "update_key_live ok eff p k (kb, tr) =
              Inr (kb\<lparr>keys := (pre @ [(k, entry_next False e)]) @ ys @ post\<rparr>, tr)"
    using update_key_live_idle [of kb k e p ok eff tr] Cons.prems(1) q lookup_segment [OF d] e
      update_segment [OF kpre]
    by simp
  have "dict_inv ((pre @ [(k, entry_next False e)]) @ ys @ post)" using d by simp
  from Cons.IH [where pre = "pre @ [(k, entry_next False e)]" and kb = "kb\<lparr>keys := (pre @ [(k, entry_next False e)]) @ ys @ post\<rparr>", OF _ this]
    Cons.prems(3)
  have "update_loop_live ok eff p (map fst ys) (kb\<lparr>keys := (pre @ [(k, entry_next False e)]) @ ys @ post\<rparr>, tr) =
        Inr (kb\<lparr>keys := (pre @ [(k, entry_next False e)]) @ released ys @ post\<rparr>, tr)"
    by simp
  then show ?case using step q by simp
qed

lemma update_loop_live_append:
  "update_loop_live ok eff p (js1 @ js2) w =
   (case update_loop_live ok eff p js1 w of Inl x \<Rightarrow> Inl x | Inr w' \<Rightarrow> update_loop_live ok eff p js2 w')"
  by (induction js1 arbitrary: w) (auto split: sum.split)

text \<open>A poll whose first keys are idle reaches the first pressed self-mapped key with
  its latch clear, writes its press flag and runs its head list on the live object;
  the keys after it are polled on what that loop leaves.\<close>

lemma update_kb_live_press_segment:
  assumes ks: "keys kb = xs @ (a, ea) # zs" and d: "dict_inv (keys kb)"
    and ea: "button_mapping ea = a" "\<not> toggle_state ea" and pa: "p a"
    and idle: "\<forall>(k, e) \<in> set xs. button_mapping e = k \<and> \<not> toggle_state e \<and> \<not> p k"
  shows "update_kb_live (Some (APP_TITLE kb)) ok eff p kb =
    (case set_latch_after a (call_bind_live ok eff a True (length (head_funcs ea)) 0
            (kb\<lparr>keys := released xs @ (a, ea\<lparr>is_pressed := True\<rparr>) # zs\<rparr>) []) of
       Inl x \<Rightarrow> Inl x
     | Inr w \<Rightarrow> update_loop_live ok eff p (map fst zs) w)"
proof -
  have dd: "dict_inv ([] @ xs @ (a, ea) # zs)" using d ks by simp
  let ?kb1 = "kb\<lparr>keys := released xs @ (a, ea) # zs\<rparr>"
  have p1: "update_loop_live ok eff p (map fst xs) (kb, []) = Inr (?kb1, [])"
    using update_loop_live_idle_segment [of kb "[]" xs "(a, ea) # zs" p ok eff "[]"] ks dd idle by simp
  have d1: "dict_inv (released xs @ (a, ea) # zs)"
    using dd by (simp only: map_append
 list.map released_keys prod.sel append_Nil)
  have apre: "a \<notin> fst ` set (released xs)" using d1 by simp
  have la: "map_of (keys ?kb1) a = Some ea" using lookup_segment [OF d1] by simp
  have w: "write_entry a (\<lambda>x. x\<lparr>is_pressed := True\<rparr>) ?kb1 =
           kb\<lparr>keys := released xs @ (a, ea\<lparr>is_pressed := True\<rparr>) # zs\<rparr>"
    using write_entry_present [OF la] update_segment [OF apre] by simp
  have p2: "update_key_live ok eff p a (?kb1, []) =
      set_latch_after a (call_bind_live ok eff a True (length (head_funcs ea)) 0
            (kb\<lparr>keys := released xs @ (a, ea\<lparr>is_pressed := True\<rparr>) # zs\<rparr>) [])"
    using la ea pa w by (simp add: update_key_live_def resolve_self Let_def)
  show ?thesis
    using p1 p2 by (simp add: ks update_kb_live_def is_app_active_def update_loop_live_append)
qed

text \<open>C29: a callback that unbinds itself skips the next callback and crashes the poll.
  Let a pressed self-mapped key \<open>a\<close> with its latch clear have the head list
  \<open>f # g # hs\<close>, where \<open>f\<close> calls \<open>remove_bind(a, True, f)\<close> (a one-shot callback)
  and the callbacks of \<open>hs\<close> return without calling a method. If the keys before \<open>a\<close>
  are idle, the focused poll calls \<open>f\<close> and then \<open>hs\<close>, never \<open>g\<close> (the removal shifted
  it to the index \<open>f\<close> had), and then raises \<open>IndexError\<close>: the range of the loop was
  fixed at the old length. \<open>a\<close>'s latch stays clear and the keys after \<open>a\<close> are not
  polled.\<close>

theorem self_unbind_skips_next:
  assumes ks: "keys kb = xs @ (a, ea) # zs" and d: "dict_inv (keys kb)"
    and ea: "button_mapping ea = a" "\<not> toggle_state ea" "head_funcs ea = f # g # hs"
    and eff: "eff f = [OpRemoveBind a True f]" "\<forall>h \<in> set hs. eff h = []"
    and ok: "ok f" "\<forall>h \<in> set hs. ok h" and pa: "p a"
    and idle: "\<forall>(k, e) \<in> set xs. button_mapping e = k \<and> \<not> toggle_state e \<and> \<not> p k"
  shows "update_kb_live (Some (APP_TITLE kb)) ok eff p kb =
         Inl (PyError IndexError,
              kb\<lparr>keys := released xs @ (a, ea\<lparr>is_pressed := True, head_funcs := g # hs\<rparr>) # zs\<rparr>, f # hs)"
proof -
  let ?kb2 = "kb\<lparr>keys := released xs @ (a, ea\<lparr>is_pressed := True\<rparr>) # zs\<rparr>"
  have d1: "dict_inv (released xs @ (a, ea) # zs)"
    using d ks by (simp only: map_append list.map released_keys prod.sel)
  have apre: "a \<notin> fst ` set (released xs)" using d1 by simp
  have la2: "map_of (keys ?kb2) a = Some (ea\<lparr>is_pressed := True\<rparr>)"
    using lookup_segment [of "released xs" a "ea\<lparr>is_pressed := True\<rparr>" zs] d1 by simp
  have "call_bind_live ok eff a True (length (head_funcs ea)) 0 ?kb2 [] =
      Inl (PyError IndexError, kb\<lparr>keys := released xs @ (a, ea\<lparr>is_pressed := True, head_funcs := g # hs\<rparr>) # zs\<rparr>,
           f # hs)"
    using call_bind_live_self_unbind [OF la2 _ eff ok, where g = g and tr = "[]"] ea(3) update_segment [OF apre]
    by simp
  then show ?thesis
    using update_kb_live_press_segment [OF ks d ea(1,2) pa idle, of ok eff]
    by (simp add: set_latch_after_def)
qed

section \<open>A callback that binds a new callback to its own key\<close>

text \<open>\<open>bind\<close> inserts at index 0: every call of \<open>f\<close> shifts it one index up, to the
  index the loop reads next.\<close>

lemma call_bind_live_rebind:
  assumes e: "map_of (keys kb) a = Some e" and h: "head_funcs e = replicate i h @ f # rest"
    and eff: "eff f = [OpBind a (Some h) None tg]" and okf: "ok f" and i: "i < n"
  shows "call_bind_live ok eff a True n i kb tr =
         Inr (kb\<lparr>keys := AList.update a (e\<lparr>toggle_enable := tg, head_funcs := replicate n h @ f # rest\<rparr>) (keys kb)\<rparr>,
              tr @ replicate (n - i) f)"
  using e h i
proof (induction "n - i" arbitrary: i e kb tr)
  case 0
  then show ?case by simp
next
  case (Suc m)
  let ?e' = "e\<lparr>toggle_enable := tg, head_funcs := replicate (Suc i) h @ f # rest\<rparr>"
  let ?kb' = "kb\<lparr>keys := AList.update a ?e' (keys kb)\<rparr>"
  have fi: "(replicate i h @ f # rest) ! i = f" by (simp add: nth_append)
  have ops: "exec_bind_ops (eff f) kb = Inr ?kb'"
    using Suc.prems(1,2) eff by (simp add: bind_kb_def Let_def)
  have la: "map_of (keys ?kb') a = Some ?e'" by simp
  show ?case
  proof (cases "Suc i < n")
    case True
    have "call_bind_live ok eff a True n (Suc i) ?kb' (tr @ [f]) =
          Inr (?kb'\<lparr>keys := AList.update a (?e'\<lparr>toggle_enable := tg, head_funcs := replicate n h @ f # rest\<rparr>) (keys ?kb')\<rparr>,
               (tr @ [f]) @ replicate (n - Suc i) f)"
      using Suc.hyps(1) [where i = "Suc i" and e = ?e' and kb = ?kb' and tr = "tr @ [f]"] Suc.hyps(2) la True by simp
    moreover have "replicate (n - i) f = f # replicate (n - Suc i) f"
      using Suc.prems(3) by (metis Suc_diff_Suc replicate_Suc)
    ultimately show ?thesis
      using Suc.prems fi okf ops
      by (subst call_bind_live.simps) (simp add: Let_def entry_list_def)
  next
    case False
    then have n: "n = Suc i" using Suc.prems(3) by simp
    have "call_bind_live ok eff a True n (Suc i) ?kb' (tr @ [f]) = Inr (?kb', tr @ [f])"
      using n by (subst call_bind_live.simps) simp
    then show ?thesis
      using Suc.prems fi okf ops n
      by (subst call_bind_live.simps) (simp add: Let_def entry_list_def)
  qed
qed

text \<open>C31: a callback that binds a new head callback to its own key is called again
  at every index and the rest of the list is never called. Let a pressed self-mapped
  key \<open>a\<close> with its latch clear have the head list \<open>f # rest\<close>, where \<open>f\<close> calls
  \<open>bind(a, h, None, tg)\<close>, and let every other key be idle. The focused poll calls
  \<open>f\<close> \<open>1 + length rest\<close> times and nothing else (neither \<open>rest\<close> nor \<open>h\<close>), leaves
  the head list as that many copies of \<open>h\<close> before \<open>f # rest\<close>, and sets the latch.\<close>

theorem rebind_in_callback_repeats:
  assumes ks: "keys kb = xs @ (a, ea) # zs" and d: "dict_inv (keys kb)"
    and ea: "button_mapping ea = a" "\<not> toggle_state ea" "head_funcs ea = f # rest"
    and eff: "eff f = [OpBind a (Some h) None tg]" and okf: "ok f" and pa: "p a"
    and idle: "\<forall>(k, e) \<in> set xs. button_mapping e = k \<and> \<not> toggle_state e \<and> \<not> p k"
    and idlez: "\<forall>(k, e) \<in> set zs. button_mapping e = k \<and> \<not> toggle_state e \<and> \<not> p k"
  shows "update_kb_live (Some (APP_TITLE kb)) ok eff p kb =
         Inr (kb\<lparr>keys := released xs @
                 (a, ea\<lparr>is_pressed := True, toggle_state := True, toggle_enable := tg,
                        head_funcs := replicate (Suc (length rest)) h @ f # rest\<rparr>) # released zs\<rparr>,
              replicate (Suc (length rest)) f)"
proof -
  let ?n = "Suc (length rest)"
  let ?e3 = "ea\<lparr>is_pressed := True, toggle_enable := tg, head_funcs := replicate ?n h @ f # rest\<rparr>"
  let ?e4 = "?e3\<lparr>toggle_state := True\<rparr>"
  let ?kb2 = "kb\<lparr>keys := released xs @ (a, ea\<lparr>is_pressed := True\<rparr>) # zs\<rparr>"
  have d1: "dict_inv (released xs @ (a, ea) # zs)"
    using d ks by (simp only: map_append list.map released_keys prod.sel)
  have apre: "a \<notin> fst ` set (released xs)" using d1 by simp
  have la2: "map_of (keys ?kb2) a = Some (ea\<lparr>is_pressed := True\<rparr>)"
    using lookup_segment [of "released xs" a "ea\<lparr>is_pressed := True\<rparr>" zs] d1 by simp
  have "call_bind_live ok eff a True ?n 0 ?kb2 [] =
        Inr (kb\<lparr>keys := released xs @ (a, ?e3) # zs\<rparr>, replicate ?n f)"
    using call_bind_live_rebind [where i = 0 and rest = rest and n = ?n and tr = "[]" and kb = ?kb2 and a = a
      and e = "ea\<lparr>is_pressed := True\<rparr>" and f = f and h = h and tg = tg and eff = eff and ok = ok, OF la2 _ eff okf]
      ea(3) update_segment [OF apre] by simp
  moreover have "write_entry a (\<lambda>x. x\<lparr>toggle_state := True\<rparr>) (kb\<lparr>keys := released xs @ (a, ?e3) # zs\<rparr>) =
                 kb\<lparr>keys := released xs @ (a, ?e4) # zs\<rparr>"
    using lookup_segment [of "released xs" a ?e3 zs] d1 update_segment [OF apre]
    by (simp add: write_entry_def map_entry_present)
  moreover have "update_loop_live ok eff p (map fst zs) (kb\<lparr>keys := (released xs @ [(a, ?e4)]) @ zs @ []\<rparr>, replicate ?n f) =
                 Inr (kb\<lparr>keys := (released xs @ [(a, ?e4)]) @ released zs @ []\<rparr>, replicate ?n f)"
    using update_loop_live_idle_segment [where kb = "kb\<lparr>keys := (released xs @ [(a, ?e4)]) @ zs @ []\<rparr>"
        and pre = "released xs @ [(a, ?e4)]" and ys = zs and post = "[]" and p = p and ok = ok and eff = eff
        and tr = "replicate ?n f"] d1 idlez
    by (simp del: map_map)
  ultimately show ?thesis
    using update_kb_live_press_segment [OF ks d ea(1,2) pa idle, of ok eff] ea(3)
    by (simp add: set_latch_after_def)
qed

section \<open>Witnesses\<close>

theorem self_unbind_skips_next_witness:
  "update_kb_live (Some ''Game'') (\<lambda>_. True) (\<lambda>c. if c = 1 then [OpRemoveBind ''a'' True 1] else [])
     (\<lambda>k. k = ''a'') (demo_kb\<lparr>keys := [(''a'', (demo_entry True)\<lparr>head_funcs := [1, 2, 3]\<rparr>), (''b'', new_entry ''b'' True)]\<rparr>) =
   Inl (PyError IndexError,
        demo_kb\<lparr>keys := [(''a'', (demo_entry True)\<lparr>is_pressed := True, head_funcs := [2, 3]\<rparr>), (''b'', new_entry ''b'' True)]\<rparr>,
        [1, 3])"
  using self_unbind_skips_next [of "demo_kb\<lparr>keys := [(''a'', (demo_entry True)\<lparr>head_funcs := [1, 2, 3]\<rparr>), (''b'', new_entry ''b'' True)]\<rparr>"
      "[]" "''a''" "(demo_entry True)\<lparr>head_funcs := [1, 2, 3]\<rparr>" "[(''b'', new_entry ''b'' True)]" 1 2 "[3]"
      "\<lambda>c. if c = (1::nat) then [OpRemoveBind ''a'' True 1] else []" "\<lambda>_. True" "\<lambda>k. k = ''a''"]
  by (simp add: demo_kb_def demo_entry_def new_entry_def)

theorem rebind_in_callback_repeats_witness:
  "update_kb_live (Some ''Game'') (\<lambda>_. True) (\<lambda>c. if c = 1 then [OpBind ''a'' (Some 5) None True] else [])
     (\<lambda>k. k = ''a'') (demo_kb\<lparr>keys := [(''a'', (demo_entry True)\<lparr>head_funcs := [1, 2]\<rparr>), (''b'', new_entry ''b'' True)]\<rparr>) =
   Inr (demo_kb\<lparr>keys := [(''a'', (demo_entry True)\<lparr>is_pressed := True, toggle_state := True, head_funcs := [5, 5, 1, 2]\<rparr>),
                          (''b'', new_entry ''b'' True)]\<rparr>,
        [1, 1])"
  using rebind_in_callback_repeats [of "demo_kb\<lparr>keys := [(''a'', (demo_entry True)\<lparr>head_funcs := [1, 2]\<rparr>), (''b'', new_entry ''b'' True)]\<rparr>"
      "[]" "''a''" "(demo_entry True)\<lparr>head_funcs := [1, 2]\<rparr>" "[(''b'', new_entry ''b'' True)]" 1 "[2]"
      "\<lambda>c. if c = (1::nat) then [OpBind ''a'' (Some 5) None True] else []" 5 True "\<lambda>_. True" "\<lambda>k. k = ''a''"]
  by (simp add: demo_kb_def demo_entry_def new_entry_def entry_next_def)

end
