(* ===== verification/KB_LiveInv.thy ===== *)
theory KB_LiveInv
  imports KB_Effects
begin

text \<open>The shape of the object under \<open>update\<close> with callbacks that call the binding
  methods (KB_Effects). None of those methods writes a press flag or a latch, adds or
  removes a key, or changes the title; \<open>update\<close> writes only the press flag and the
  latch of the resolved entry. So every live poll, whatever its callbacks do and
  wherever it stops, keeps the keys of the dict in their order, the title, and the
  latch invariant of KB_Entry (a latched entry is pressed).\<close>

section \<open>The flags of an object\<close>

text \<open>The part of the object that \<open>update\<close> writes and the binding methods keep:
  each key with the press flag and latch of its entry.\<close>

definition kb_flags :: "'cb keyboard_binding \<Rightarrow> (key \<times> bool \<times> bool) list" where
  "kb_flags kb = map (\<lambda>(k, e). (k, (is_pressed e, toggle_state e))) (keys kb)"

definition live_state :: "'cb live_outcome \<Rightarrow> 'cb keyboard_binding" where
  "live_state r = (case r of Inl (_, kb, _) \<Rightarrow> kb | Inr (kb, _) \<Rightarrow> kb)"

definition same_shape :: "'cb keyboard_binding \<Rightarrow> 'cb keyboard_binding \<Rightarrow> bool" where
  "same_shape kb' kb \<longleftrightarrow> kb_flags kb' = kb_flags kb \<and> APP_TITLE kb' = APP_TITLE kb"

text \<open>What a live step keeps: the keys in their order, the title, and the latch
  invariant.\<close>

definition live_frame :: "'cb keyboard_binding \<Rightarrow> 'cb keyboard_binding \<Rightarrow> bool" where
  "live_frame kb' kb \<longleftrightarrow> map fst (keys kb') = map fst (keys kb) \<and> APP_TITLE kb' = APP_TITLE kb \<and>
     (latch_inv (keys kb) \<longrightarrow> latch_inv (keys kb'))"

section \<open>The binding methods keep the flags\<close>

lemma same_shape_refl [simp]: "same_shape kb kb"
  by (simp add: same_shape_def)

lemma same_shape_trans: "same_shape a b \<Longrightarrow> same_shape b c \<Longrightarrow> same_shape a c"
  by (simp add: same_shape_def)

lemma kb_flags_update:
  "map_of (keys kb) k = Some x \<Longrightarrow> is_pressed x' = is_pressed x \<Longrightarrow> toggle_state x' = toggle_state x \<Longrightarrow>
   kb_flags (kb\<lparr>keys := AList.update k x' (keys kb)\<rparr>) = kb_flags kb"
  unfolding kb_flags_def
  using update_map_same [of "keys kb" k x "\<lambda>e. (is_pressed e, toggle_state e)" x'] by simp

lemma exec_bind_op_shape: "exec_bind_op op kb = Inr kb' \<Longrightarrow> same_shape kb' kb"
proof (cases op)
  case (OpSwapBinds a b)
  assume r: "exec_bind_op op kb = Inr kb'"
  show ?thesis
  proof (cases "map_of (keys kb) a = None \<or> map_of (keys kb) b = None")
    case True
    with r OpSwapBinds show ?thesis by (auto simp: swap_binds_def split: option.splits)
  next
    case False
    then obtain ea eb where ea: "map_of (keys kb) a = Some ea" and eb: "map_of (keys kb) b = Some eb" by auto
    let ?kb1 = "kb\<lparr>keys := AList.update a (ea\<lparr>head_funcs := head_funcs eb, tail_funcs := tail_funcs eb\<rparr>) (keys kb)\<rparr>"
    have f1: "kb_flags ?kb1 = kb_flags kb" by (rule kb_flags_update [OF ea]) simp_all
    obtain x where x: "map_of (keys ?kb1) b = Some x" "is_pressed x = is_pressed eb" "toggle_state x = toggle_state eb"
      using ea eb by (cases "a = b") auto
    have "kb_flags (?kb1\<lparr>keys := AList.update b (eb\<lparr>head_funcs := head_funcs ea, tail_funcs := tail_funcs ea\<rparr>) (keys ?kb1)\<rparr>) =
          kb_flags ?kb1"
      by (rule kb_flags_update [OF x(1)]) (simp_all add: x)
    with r OpSwapBinds ea eb f1 show ?thesis by (auto simp: swap_binds_def same_shape_def Let_def)
  qed
qed (auto simp: same_shape_def kb_flags_update method_defs Let_def remove_loop_remove1
          split: option.splits if_splits)

lemma exec_bind_ops_shape:
  "exec_bind_ops ops kb = Inr kb' \<Longrightarrow> same_shape kb' kb"
  "exec_bind_ops ops kb = Inl (err, kb') \<Longrightarrow> same_shape kb' kb"
proof (induction ops arbitrary: kb)
  case Nil
  { case 1 then show ?case by simp }
  { case 2 then show ?case by simp }
next
  case (Cons op ops)
  { case 1 then show ?case
      using Cons.IH(1) exec_bind_op_shape same_shape_trans by (fastforce split: sum.splits) }
  { case 2 then show ?case
      using Cons.IH(2) exec_bind_op_shape same_shape_trans by (fastforce split: sum.splits) }
qed

section \<open>The callback loop keeps the flags\<close>

lemma call_bind_live_shape: "same_shape (live_state (call_bind_live ok eff rk from_head n i kb tr)) kb"
proof (induction ok eff rk from_head n i kb tr rule: call_bind_live.induct)
  case (1 ok eff rk from_head n i kb tr)
  show ?case
  proof (cases "i < n \<and> i < length (entry_list from_head (map_of (keys kb) rk))")
    case False
    then show ?thesis by (subst call_bind_live.simps) (auto simp: Let_def live_state_def)
  next
    case True
    let ?f = "entry_list from_head (map_of (keys kb) rk) ! i"
    show ?thesis
    proof (cases "ok ?f")
      case False
      with True show ?thesis by (subst call_bind_live.simps) (auto simp: Let_def live_state_def)
    next
      case okf: True
      show ?thesis
      proof (cases "exec_bind_ops (eff ?f) kb")
        case (Inl x)
        with True okf show ?thesis
          by (subst call_bind_live.simps) (auto simp: Let_def live_state_def dest: exec_bind_ops_shape(2) split: prod.split)
      next
        case (Inr kb')
        have "same_shape (live_state (call_bind_live ok eff rk from_head n (Suc i) kb' (tr @ [?f]))) kb'"
          using "1" [OF _ refl _ refl okf Inr] True by auto
        with True okf Inr show ?thesis
          by (subst call_bind_live.simps) (auto simp: Let_def intro: same_shape_trans exec_bind_ops_shape(1))
      qed
    qed
  qed
qed

section \<open>Facts about the flags\<close>

lemma latch_inv_flags: "latch_inv (keys kb) \<longleftrightarrow> (\<forall>(k, p, t) \<in> set (kb_flags kb). t \<longrightarrow> p)"
  by (auto simp: latch_inv_def kb_flags_def)

lemma same_shape_frame: "same_shape kb' kb \<Longrightarrow> live_frame kb' kb"
proof -
  assume s: "same_shape kb' kb"
  then have "map fst (kb_flags kb') = map fst (kb_flags kb)" by (simp add: same_shape_def)
  then have "map fst (keys kb') = map fst (keys kb)" by (simp add: kb_flags_def)
  with s show ?thesis by (simp add: live_frame_def same_shape_def latch_inv_flags)
qed

lemma same_shape_lookup:
  "same_shape kb' kb \<Longrightarrow> map_of (keys kb) k = Some e \<Longrightarrow>
   \<exists>e'. map_of (keys kb') k = Some e' \<and> is_pressed e' = is_pressed e \<and> toggle_state e' = toggle_state e"
  using map_of_map_keyed [of "\<lambda>_ e. (is_pressed e, toggle_state e)" "keys kb'" k]
    map_of_map_keyed [of "\<lambda>_ e. (is_pressed e, toggle_state e)" "keys kb" k]
  by (cases "map_of (keys kb') k") (auto simp: same_shape_def kb_flags_def)

lemma live_frame_trans: "live_frame a b \<Longrightarrow> live_frame b c \<Longrightarrow> live_frame a c"
  by (simp add: live_frame_def)

lemma write_entry_frame:
  "map_of (keys kb) rk = Some e \<Longrightarrow> (toggle_state (g e) \<longrightarrow> is_pressed (g e)) \<Longrightarrow>
   live_frame (write_entry rk g kb) kb"
  by (auto simp: live_frame_def write_entry_present dict_simps intro: latch_inv_update)

lemma map_entry_twice: "AList.map_entry k g (AList.map_entry k h xs) = AList.map_entry k (g \<circ> h) xs"
  by (induction xs) auto

lemma write_entry_twice: "write_entry rk g (write_entry rk h kb) = write_entry rk (g \<circ> h) kb"
  by (simp add: write_entry_def map_entry_twice)

section \<open>A live poll keeps the keys, the title and the latch invariant\<close>

lemma set_latch_after_frame:
  assumes e1: "map_of (keys kb1) rk = Some e1" "is_pressed e1"
  shows "live_frame (live_state (set_latch_after rk (call_bind_live ok eff rk True n 0 kb1 tr))) kb1"
proof (cases "call_bind_live ok eff rk True n 0 kb1 tr")
  case (Inl x)
  then show ?thesis
    using call_bind_live_shape [of ok eff rk True n 0 kb1 tr]
    by (auto simp: set_latch_after_def live_state_def intro: same_shape_frame split: prod.splits)
next
  case (Inr w)
  obtain kb' tr' where w: "w = (kb', tr')" by fastforce
  have s: "same_shape kb' kb1"
    using call_bind_live_shape [of ok eff rk True n 0 kb1 tr] Inr w by (simp add: live_state_def)
  obtain e' where e': "map_of (keys kb') rk = Some e'" "is_pressed e'"
    using same_shape_lookup [OF s e1(1)] e1(2) by auto
  have "live_frame (write_entry rk (\<lambda>x. x\<lparr>toggle_state := True\<rparr>) kb') kb'"
    by (rule write_entry_frame [OF e'(1)]) (simp add: e'(2))
  with same_shape_frame [OF s] Inr w show ?thesis
    by (auto simp: set_latch_after_def live_state_def intro: live_frame_trans)
qed

lemma update_key_live_frame: "live_frame (live_state (update_key_live ok eff p k (kb, tr))) kb"
proof (cases "map_of (keys kb) k")
  case None
  then show ?thesis by (simp add: update_key_live_def live_state_def live_frame_def)
next
  case (Some v)
  obtain rk e where r: "resolve (keys kb) k v = (rk, e)" by fastforce
  have rke: "map_of (keys kb) rk = Some e" by (rule resolve_found [OF Some r])
  let ?kb1 = "write_entry rk (\<lambda>x. x\<lparr>is_pressed := True\<rparr>) kb"
  have f1: "live_frame ?kb1 kb" by (rule write_entry_frame [OF rke]) simp
  have l1: "map_of (keys ?kb1) rk = Some (e\<lparr>is_pressed := True\<rparr>)" by (simp add: write_entry_present [OF rke])
  have head: "live_frame (live_state (set_latch_after rk (call_bind_live ok eff rk True (length (head_funcs e)) 0 ?kb1 tr))) kb"
    by (rule live_frame_trans [OF set_latch_after_frame [OF l1] f1]) simp
  let ?kb0 = "write_entry rk (\<lambda>x. x\<lparr>is_pressed := False\<rparr>) kb"
  let ?kb2 = "write_entry rk (\<lambda>x. x\<lparr>toggle_state := False\<rparr>) ?kb0"
  have f2: "live_frame ?kb2 kb"
    unfolding write_entry_twice by (rule write_entry_frame [OF rke]) simp
  have tail: "live_frame (live_state (call_bind_live ok eff rk False (length (tail_funcs e)) 0 ?kb2 tr)) kb"
    by (rule live_frame_trans [OF same_shape_frame [OF call_bind_live_shape] f2])
  have f0: "\<not> toggle_state e \<Longrightarrow> live_frame ?kb0 kb" by (rule write_entry_frame [OF rke]) simp
  show ?thesis
    using Some r head tail f0 f1
    by (auto simp: update_key_live_def live_state_def Let_def)
qed

lemma update_loop_live_frame:
  "live_frame (live_state (update_loop_live ok eff p ks (kb, tr))) kb"
proof (induction ks arbitrary: kb tr)
  case Nil
  then show ?case by (simp add: live_state_def live_frame_def)
next
  case (Cons k ks)
  show ?case
  proof (cases "update_key_live ok eff p k (kb, tr)")
    case (Inl x)
    then show ?thesis using update_key_live_frame [of ok eff p k kb tr] by simp
  next
    case (Inr w)
    obtain kb' tr' where w: "w = (kb', tr')" by fastforce
    have "live_frame kb' kb" using update_key_live_frame [of ok eff p k kb tr] Inr w by (simp add: live_state_def)
    with Cons.IH [of kb' tr'] Inr w show ?thesis by (auto intro: live_frame_trans)
  qed
qed

text \<open>C32: whatever the callbacks do through the binding methods, and whether the
  poll returns, a callback raises or a method raises, \<open>update\<close> on the live object
  keeps the keys of the dict in their order and the window title, and keeps the
  latch invariant: a latched entry is pressed.\<close>

theorem update_kb_live_keeps_shape:
  assumes "latch_inv (keys kb)"
  shows "map fst (keys (live_state (update_kb_live active ok eff p kb))) = map fst (keys kb) \<and>
         APP_TITLE (live_state (update_kb_live active ok eff p kb)) = APP_TITLE kb \<and>
         latch_inv (keys (live_state (update_kb_live active ok eff p kb)))"
  using update_loop_live_frame [of ok eff p "map fst (keys kb)" kb "[]"] assms
  by (auto simp: update_kb_live_def live_frame_def live_state_def)

section \<open>Witnesses\<close>

theorem update_kb_live_keeps_shape_witness:
  "latch_inv (keys demo_kb) \<and>
   map fst (keys (live_state (update_kb_live (Some ''Game'') (\<lambda>c. c \<noteq> 2)
      (\<lambda>c. if c = 1 then [OpSwapBinds ''a'' ''b'', OpBind ''b'' (Some 3) None False] else [])
      (\<lambda>k. k = ''a'') demo_kb))) = [''a'', ''b'']"
  using update_kb_live_keeps_shape [of demo_kb "Some ''Game''" "\<lambda>c. c \<noteq> (2::nat)"
      "\<lambda>c. if c = 1 then [OpSwapBinds ''a'' ''b'', OpBind ''b'' (Some 3) None False] else []" "\<lambda>k. k = ''a''"]
  by (simp add: demo_kb_def demo_entry_def new_entry_def latch_inv_def)

end
