(* ===== verification/KB_Heap.thy ===== *)
theory KB_Heap
  imports KB_LiveInv
begin

text \<open>The entries of \<open>self.keys\<close> are Python list objects, and \<open>update\<close> holds a
  reference to the resolved one (\<open>remap\<close>) across its callbacks: it writes the press
  flag and latch into that object and \<open>__call_bind\<close> reads its callback lists from
  it. A callback that calls \<open>add_key\<close> replaces the object a key maps to, and one
  that calls \<open>remove_key\<close> removes it from the dict; then the object \<open>update\<close> holds
  is no longer the key's entry. This theory models the object store explicitly:
  \<open>self.keys\<close> maps each key to the address of its entry object, the store maps
  addresses to entries, and \<open>add_key\<close> allocates a fresh object at the next free
  address (as \<open>alloc\<close> of Imperative_HOL). It also models what iterating
  \<open>self.keys.items()\<close> does when the dict changes size: the next step of the
  iteration raises \<open>RuntimeError\<close>. Without \<open>add_key\<close> and \<open>remove_key\<close> in the
  callbacks, the store model refines the value model of KB_Effects through the
  abstraction \<open>abs_kb\<close> (C33).\<close>

section \<open>The object store\<close>

text \<open>The object: its title, \<open>self.keys\<close> from key names to the addresses of the
  entry lists, the store of entry lists, and the next free address.\<close>

record 'cb heap_kb =
  h_title :: string
  h_keys :: "(key, nat) dict"
  h_store :: "nat \<Rightarrow> 'cb key_entry"
  h_lim :: nat

text \<open>The value an object denotes: each key with the entry its address holds.\<close>

definition abs_kb :: "'cb heap_kb \<Rightarrow> 'cb keyboard_binding" where
  "abs_kb h = \<lparr>APP_TITLE = h_title h, keys = map (\<lambda>(k, a). (k, h_store h a)) (h_keys h)\<rparr>"

text \<open>Every object is allocated fresh: the keys are distinct, no two keys share an
  entry object, and every address in the dict is allocated.\<close>

definition heap_inv :: "'cb heap_kb \<Rightarrow> bool" where
  "heap_inv h \<longleftrightarrow> dict_inv (h_keys h) \<and> distinct (map snd (h_keys h)) \<and> (\<forall>a \<in> snd ` set (h_keys h). a < h_lim h)"

definition write_obj :: "nat \<Rightarrow> ('cb key_entry \<Rightarrow> 'cb key_entry) \<Rightarrow> 'cb heap_kb \<Rightarrow> 'cb heap_kb" where
  "write_obj a g h = h\<lparr>h_store := (h_store h)(a := g (h_store h a))\<rparr>"

section \<open>The methods on the store\<close>

text \<open>\<open>add_key\<close>: \<open>self.keys[key] = [remap, 0, 0, toggle, [[], []]]\<close> builds a new
  list object; a key already present keeps its place in the dict and now maps to
  the new object.\<close>

definition h_add_key :: "'cb heap_kb \<Rightarrow> key \<Rightarrow> key option \<Rightarrow> bool \<Rightarrow> 'cb heap_kb" where
  "h_add_key h k rm toggle =
     (let r = (case rm of None \<Rightarrow> k | Some m \<Rightarrow> if m = [] then k else m);
          a = h_lim h
      in h\<lparr>h_keys := AList.update k a (h_keys h), h_store := (h_store h)(a := new_entry r toggle),
           h_lim := Suc a\<rparr>)"

definition h_remove_key :: "'cb heap_kb \<Rightarrow> key \<Rightarrow> bool \<times> 'cb heap_kb" where
  "h_remove_key h k =
     (case map_of (h_keys h) k of
        None \<Rightarrow> (False, h)
      | Some _ \<Rightarrow> (True, h\<lparr>h_keys := AList.delete k (h_keys h)\<rparr>))"

text \<open>The binding methods mutate, in place, the entry objects \<open>self.keys.get\<close>
  finds. Their effect on the entries is the one of KB_Registry; each key's new
  entry is written back to that key's object.\<close>

fun store_back :: "(key, nat) dict \<Rightarrow> (key, 'cb key_entry) dict \<Rightarrow> (nat \<Rightarrow> 'cb key_entry) \<Rightarrow> nat \<Rightarrow> 'cb key_entry" where
  "store_back ((k, a) # hks) ((k', e) # ks) st = (store_back hks ks st)(a := e)"
| "store_back _ _ st = st"

definition h_method :: "'cb bind_op \<Rightarrow> 'cb heap_kb \<Rightarrow> py_error + 'cb heap_kb" where
  "h_method op h =
     (case exec_bind_op op (abs_kb h) of
        Inl err \<Rightarrow> Inl err
      | Inr kb' \<Rightarrow> Inr (h\<lparr>h_store := store_back (h_keys h) (keys kb') (h_store h)\<rparr>))"

text \<open>What a callback can call: a binding method, \<open>add_key\<close> or \<open>remove_key\<close>.\<close>

datatype 'cb heap_op = HMethod "'cb bind_op" | HAddKey key "key option" bool | HRemoveKey key

fun exec_heap_op :: "'cb heap_op \<Rightarrow> 'cb heap_kb \<Rightarrow> py_error + 'cb heap_kb" where
  "exec_heap_op (HMethod op) h = h_method op h"
| "exec_heap_op (HAddKey k r t) h = Inr (h_add_key h k r t)"
| "exec_heap_op (HRemoveKey k) h = Inr (snd (h_remove_key h k))"

fun exec_heap_ops :: "'cb heap_op list \<Rightarrow> 'cb heap_kb \<Rightarrow> (py_error \<times> 'cb heap_kb) + 'cb heap_kb" where
  "exec_heap_ops [] h = Inr h"
| "exec_heap_ops (op # ops) h =
     (case exec_heap_op op h of Inl err \<Rightarrow> Inl (err, h) | Inr h' \<Rightarrow> exec_heap_ops ops h')"

type_synonym 'cb heap_outcome = "('cb exc \<times> 'cb heap_kb \<times> 'cb list) + ('cb heap_kb \<times> 'cb list)"

section \<open>\<open>update\<close> on the store\<close>

text \<open>\<open>__call_bind(key_data, index)\<close> on the object at address \<open>a\<close>: the bound is
  fixed at the start and the list is read from the object at every index.\<close>

function call_bind_heap ::
  "('cb \<Rightarrow> bool) \<Rightarrow> ('cb \<Rightarrow> 'cb heap_op list) \<Rightarrow> nat \<Rightarrow> bool \<Rightarrow> nat \<Rightarrow> nat \<Rightarrow>
   'cb heap_kb \<Rightarrow> 'cb list \<Rightarrow> 'cb heap_outcome" where
  "call_bind_heap ok eff a from_head n i h tr =
     (if i < n then
        (let l = (if from_head then head_funcs (h_store h a) else tail_funcs (h_store h a)) in
         if i < length l then
           (let f = l ! i in
            if ok f then
              (case exec_heap_ops (eff f) h of
                 Inl (err, h') \<Rightarrow> Inl (PyError err, h', tr @ [f])
               | Inr h' \<Rightarrow> call_bind_heap ok eff a from_head n (Suc i) h' (tr @ [f]))
            else Inl (Raised f, h, tr @ [f]))
         else Inl (PyError IndexError, h, tr))
      else Inr (h, tr))"
  by pat_completeness auto
termination
  by (relation "measure (\<lambda>(ok, eff, a, from_head, n, i, h, tr). Suc n - i)") auto

declare call_bind_heap.simps [simp del]

definition latch_obj_after :: "nat \<Rightarrow> 'cb heap_outcome \<Rightarrow> 'cb heap_outcome" where
  "latch_obj_after a r =
     (case r of Inl x \<Rightarrow> Inl x | Inr (h, tr) \<Rightarrow> Inr (write_obj a (\<lambda>x. x\<lparr>toggle_state := True\<rparr>) h, tr))"

text \<open>Lines 301-305: the address of the object \<open>remap\<close> refers to.\<close>

definition resolve_addr :: "(key, nat) dict \<Rightarrow> key \<Rightarrow> nat \<Rightarrow> 'cb key_entry \<Rightarrow> nat" where
  "resolve_addr hks k av v =
     (if button_mapping v \<noteq> k then (case map_of hks (button_mapping v) of Some t \<Rightarrow> t | None \<Rightarrow> av) else av)"

text \<open>The body of the loop for key \<open>k\<close> (lines 301-321); every write and every
  callback list goes through the object resolved at the start of the body.\<close>

definition update_key_heap ::
  "('cb \<Rightarrow> bool) \<Rightarrow> ('cb \<Rightarrow> 'cb heap_op list) \<Rightarrow> (key \<Rightarrow> bool) \<Rightarrow> key \<Rightarrow>
   'cb heap_kb \<times> 'cb list \<Rightarrow> 'cb heap_outcome" where
  "update_key_heap ok eff pressed k w =
     (case w of (h, tr) \<Rightarrow>
        (case map_of (h_keys h) k of
           None \<Rightarrow> Inr (h, tr)
         | Some av \<Rightarrow>
             (let ra = resolve_addr (h_keys h) k av (h_store h av);
                  e = h_store h ra
              in if pressed k then
                   (let h1 = write_obj ra (\<lambda>x. x\<lparr>is_pressed := True\<rparr>) h in
                    if toggle_enable e then
                      (if \<not> toggle_state e
                       then latch_obj_after ra (call_bind_heap ok eff ra True (length (head_funcs e)) 0 h1 tr)
                       else Inr (h1, tr))
                    else latch_obj_after ra (call_bind_heap ok eff ra True (length (head_funcs e)) 0 h1 tr))
                 else
                   (let h1 = write_obj ra (\<lambda>x. x\<lparr>is_pressed := False\<rparr>) h in
                    if toggle_state e then
                      call_bind_heap ok eff ra False (length (tail_funcs e)) 0
                        (write_obj ra (\<lambda>x. x\<lparr>toggle_state := False\<rparr>) h1) tr
                    else Inr (h1, tr)))))"

text \<open>\<open>for k, v in self.keys.items()\<close>: every step of the iteration, the last one
  included, first checks that the dict has the size it had when the iteration
  started, and raises \<open>RuntimeError\<close> otherwise. The keys are visited in the order
  the dict had at the start.\<close>

fun update_loop_heap ::
  "('cb \<Rightarrow> bool) \<Rightarrow> ('cb \<Rightarrow> 'cb heap_op list) \<Rightarrow> (key \<Rightarrow> bool) \<Rightarrow> nat \<Rightarrow> key list \<Rightarrow>
   'cb heap_kb \<times> 'cb list \<Rightarrow> 'cb heap_outcome" where
  "update_loop_heap ok eff pressed n0 [] (h, tr) =
     (if length (h_keys h) \<noteq> n0 then Inl (PyError RuntimeError, h, tr) else Inr (h, tr))"
| "update_loop_heap ok eff pressed n0 (k # ks) (h, tr) =
     (if length (h_keys h) \<noteq> n0 then Inl (PyError RuntimeError, h, tr)
      else (case update_key_heap ok eff pressed k (h, tr) of
              Inl x \<Rightarrow> Inl x
            | Inr w \<Rightarrow> update_loop_heap ok eff pressed n0 ks w))"

definition update_kb_heap ::
  "string option \<Rightarrow> ('cb \<Rightarrow> bool) \<Rightarrow> ('cb \<Rightarrow> 'cb heap_op list) \<Rightarrow> (key \<Rightarrow> bool) \<Rightarrow> 'cb heap_kb \<Rightarrow>
   'cb heap_outcome" where
  "update_kb_heap active ok eff pressed h =
     (if \<not> is_app_active active (h_title h) then Inr (h, [])
      else update_loop_heap ok eff pressed (length (h_keys h)) (map fst (h_keys h)) (h, []))"

text \<open>The object a store outcome ends in, and what a step of the store keeps when
  no callback adds or removes a key.\<close>

definition heap_state :: "'cb heap_outcome \<Rightarrow> 'cb heap_kb" where
  "heap_state r = (case r of Inl (_, h, _) \<Rightarrow> h | Inr (h, _) \<Rightarrow> h)"

definition hframe :: "'cb heap_kb \<Rightarrow> 'cb heap_kb \<Rightarrow> bool" where
  "hframe h' h \<longleftrightarrow> h_keys h' = h_keys h \<and> h_lim h' = h_lim h \<and> h_title h' = h_title h"

text \<open>Releasing the objects of a segment of idle keys, one after the other.\<close>

fun release_objs :: "nat list \<Rightarrow> 'cb heap_kb \<Rightarrow> 'cb heap_kb" where
  "release_objs [] h = h"
| "release_objs (a # as) h = release_objs as (write_obj a (\<lambda>x. x\<lparr>is_pressed := False\<rparr>) h)"

text \<open>An outcome of the store model read through the abstraction.\<close>

definition map_live :: "'cb heap_outcome \<Rightarrow> 'cb live_outcome" where
  "map_live r = (case r of Inl (x, h, tr) \<Rightarrow> Inl (x, abs_kb h, tr) | Inr (h, tr) \<Rightarrow> Inr (abs_kb h, tr))"

section \<open>The abstraction\<close>

lemma abs_kb_simps [simp]:
  "APP_TITLE (abs_kb h) = h_title h"
  "map fst (keys (abs_kb h)) = map fst (h_keys h)"
  by (simp_all add: abs_kb_def)

lemma abs_lookup: "map_of (keys (abs_kb h)) k = map_option (h_store h) (map_of (h_keys h) k)"
  using map_of_map_keyed [of "\<lambda>_ a. h_store h a" "h_keys h" k] by (simp add: abs_kb_def)

lemma hframe_refl [simp]: "hframe h h"
  by (simp add: hframe_def)

lemma hframe_trans: "hframe a b \<Longrightarrow> hframe b c \<Longrightarrow> hframe a c"
  by (simp add: hframe_def)

lemma hframe_inv: "hframe h' h \<Longrightarrow> heap_inv h' = heap_inv h"
  by (simp add: hframe_def heap_inv_def)

lemma write_obj_hframe [simp]: "hframe (write_obj a g h) h"
  by (simp add: hframe_def write_obj_def)

lemma heap_inv_write_obj [simp]: "heap_inv (write_obj a g h) = heap_inv h"
  by (simp add: heap_inv_def write_obj_def)

lemma map_store_other:
  "a \<notin> snd ` set hks \<Longrightarrow> map (\<lambda>(k, b). (k, if b = a then x else st b)) hks = map (\<lambda>(k, b). (k, st b)) hks"
  by (induction hks) auto

text \<open>Writing an object the dict maps a key to is writing that key's entry.\<close>

lemma map_store_update:
  "distinct (map fst hks) \<Longrightarrow> distinct (map snd hks) \<Longrightarrow> map_of hks rk = Some a \<Longrightarrow>
   map (\<lambda>(k, b). (k, if b = a then x else st b)) hks = AList.update rk x (map (\<lambda>(k, b). (k, st b)) hks)"
proof (induction hks)
  case Nil
  then show ?case by simp
next
  case (Cons q hks)
  obtain k b where q: "q = (k, b)" by fastforce
  show ?case
  proof (cases "k = rk")
    case True
    with Cons.prems q have "a = b" "a \<notin> snd ` set hks" by auto
    with True q show ?thesis by (simp add: map_store_other)
  next
    case False
    with Cons.prems(3) q have "map_of hks rk = Some a" by simp
    then have "a \<in> snd ` set hks" by (force dest: map_of_SomeD)
    with Cons.prems(2) q have "b \<noteq> a" by auto
    with Cons False q show ?thesis by simp
  qed
qed

lemma write_obj_abs:
  "heap_inv h \<Longrightarrow> map_of (h_keys h) rk = Some a \<Longrightarrow> abs_kb (write_obj a g h) = write_entry rk g (abs_kb h)"
  using abs_lookup [of h rk]
  by (simp add: heap_inv_def write_obj_def write_entry_present abs_kb_def map_store_update)

text \<open>Writing every key's new entry back to its object gives the new entries.\<close>

lemma store_back_abs:
  "distinct (map snd hks) \<Longrightarrow> map fst ks = map fst hks \<Longrightarrow>
   map (\<lambda>(k, a). (k, store_back hks ks st a)) hks = ks"
proof (induction hks arbitrary: ks)
  case Nil
  then show ?case by simp
next
  case (Cons q hks)
  obtain k a where q: "q = (k, a)" by fastforce
  from Cons.prems q obtain e ks' where ks: "ks = (k, e) # ks'" "map fst ks' = map fst hks"
    by (cases ks) auto
  from Cons.prems q have "a \<notin> snd ` set hks" "distinct (map snd hks)" by auto
  then show ?case
    using Cons.IH [OF _ ks(2)] q ks(1) by (simp add: map_store_other)
qed

lemma h_method_abs:
  assumes inv: "heap_inv h" and r: "exec_bind_op op (abs_kb h) = Inr kb'"
  shows "h_method op h = Inr (h\<lparr>h_store := store_back (h_keys h) (keys kb') (h_store h)\<rparr>)"
    and "abs_kb (h\<lparr>h_store := store_back (h_keys h) (keys kb') (h_store h)\<rparr>) = kb'"
proof -
  show "h_method op h = Inr (h\<lparr>h_store := store_back (h_keys h) (keys kb') (h_store h)\<rparr>)"
    using r by (simp add: h_method_def)
  have fr: "live_frame kb' (abs_kb h)" by (rule same_shape_frame [OF exec_bind_op_shape [OF r]])
  then have k: "map fst (keys kb') = map fst (h_keys h)" and t: "APP_TITLE kb' = h_title h"
    by (simp_all add: live_frame_def)
  have "map (\<lambda>(k, a). (k, store_back (h_keys h) (keys kb') (h_store h) a)) (h_keys h) = keys kb'"
    using inv k by (simp add: heap_inv_def store_back_abs)
  with t show "abs_kb (h\<lparr>h_store := store_back (h_keys h) (keys kb') (h_store h)\<rparr>) = kb'"
    by (cases kb') (simp add: abs_kb_def)
qed

lemma exec_heap_ops_methods:
  "heap_inv h \<Longrightarrow>
   (case exec_heap_ops (map HMethod ops) h of
      Inl (err, h') \<Rightarrow> exec_bind_ops ops (abs_kb h) = Inl (err, abs_kb h') \<and> hframe h' h
    | Inr h' \<Rightarrow> exec_bind_ops ops (abs_kb h) = Inr (abs_kb h') \<and> hframe h' h)"
proof (induction ops arbitrary: h)
  case Nil
  then show ?case by simp
next
  case (Cons op ops)
  show ?case
  proof (cases "exec_bind_op op (abs_kb h)")
    case (Inl err)
    then show ?thesis by (simp add: h_method_def)
  next
    case (Inr kb')
    let ?h1 = "h\<lparr>h_store := store_back (h_keys h) (keys kb') (h_store h)\<rparr>"
    have fr: "hframe ?h1 h" by (simp add: hframe_def)
    then have "heap_inv ?h1" using Cons.prems by (simp add: hframe_inv)
    from Cons.IH [OF this] h_method_abs [OF Cons.prems Inr] Inr fr show ?thesis
      by (auto split: sum.splits intro: hframe_trans)
  qed
qed

text \<open>The callback loop on an object the dict maps \<open>rk\<close> to is the loop of KB_Effects
  on \<open>rk\<close>'s entry, when the callbacks call only binding methods.\<close>

lemma call_bind_heap_abs:
  assumes inv: "heap_inv h" and a: "map_of (h_keys h) rk = Some a"
    and eff: "\<And>f. eff f = map HMethod (effb f)"
  shows "map_live (call_bind_heap ok eff a from_head n i h tr) = call_bind_live ok effb rk from_head n i (abs_kb h) tr \<and>
         hframe (heap_state (call_bind_heap ok eff a from_head n i h tr)) h"
  using inv a
proof (induction "n - i" arbitrary: i h tr)
  case 0
  then show ?case
    by (simp add: call_bind_heap.simps call_bind_live.simps map_live_def heap_state_def)
next
  case (Suc m)
  let ?l = "if from_head then head_funcs (h_store h a) else tail_funcs (h_store h a)"
  let ?f = "?l ! i"
  let ?H = "call_bind_heap ok eff a from_head n i h tr"
  let ?L = "call_bind_live ok effb rk from_head n i (abs_kb h) tr"
  have l: "entry_list from_head (map_of (keys (abs_kb h)) rk) = ?l"
    using Suc.prems(2) by (simp add: abs_lookup entry_list_def)
  have i: "i < n" using Suc.hyps(2) by simp
  note H = call_bind_heap.simps [of ok eff a from_head n i h tr]
  note L = call_bind_live.simps [of ok effb rk from_head n i "abs_kb h" tr]
  consider (over) "\<not> i < length ?l" | (raise) "i < length ?l" "\<not> ok ?f"
    | (err) err h' where "i < length ?l" "ok ?f" "exec_heap_ops (eff ?f) h = Inl (err, h')"
    | (step) h' where "i < length ?l" "ok ?f" "exec_heap_ops (eff ?f) h = Inr h'"
    by (metis surj_pair sum.exhaust)
  then show ?case
  proof cases
    case over
    then have "?H = Inl (PyError IndexError, h, tr)" "?L = Inl (PyError IndexError, abs_kb h, tr)"
      using i l by (simp_all add: H L Let_def)
    then show ?thesis by (simp add: map_live_def heap_state_def)
  next
    case raise
    then have "?H = Inl (Raised ?f, h, tr @ [?f])" "?L = Inl (Raised ?f, abs_kb h, tr @ [?f])"
      using i l by (simp_all add: H L Let_def)
    then show ?thesis by (simp add: map_live_def heap_state_def)
  next
    case err
    with exec_heap_ops_methods [OF Suc.prems(1), of "effb ?f"] eff
    have e: "exec_bind_ops (effb ?f) (abs_kb h) = Inl (err, abs_kb h')" "hframe h' h" by auto
    have "?H = Inl (PyError err, h', tr @ [?f])" "?L = Inl (PyError err, abs_kb h', tr @ [?f])"
      using i l err e by (simp_all add: H L Let_def)
    with e show ?thesis by (simp add: map_live_def heap_state_def)
  next
    case step
    with exec_heap_ops_methods [OF Suc.prems(1), of "effb ?f"] eff
    have e: "exec_bind_ops (effb ?f) (abs_kb h) = Inr (abs_kb h')" "hframe h' h" by auto
    have "heap_inv h'" using hframe_inv [OF e(2)] Suc.prems(1) by simp
    have "map_of (h_keys h') rk = Some a" using e(2) Suc.prems(2) by (simp add: hframe_def)
    with \<open>heap_inv h'\<close> Suc.hyps(1) [of "Suc i" h' "tr @ [?f]"] Suc.hyps(2)
    have ih: "map_live (call_bind_heap ok eff a from_head n (Suc i) h' (tr @ [?f])) =
                call_bind_live ok effb rk from_head n (Suc i) (abs_kb h') (tr @ [?f]) \<and>
              hframe (heap_state (call_bind_heap ok eff a from_head n (Suc i) h' (tr @ [?f]))) h'"
      by simp
    have "?H = call_bind_heap ok eff a from_head n (Suc i) h' (tr @ [?f])"
         "?L = call_bind_live ok effb rk from_head n (Suc i) (abs_kb h') (tr @ [?f])"
      using i l step e by (simp_all add: H L Let_def)
    with ih hframe_trans [OF conjunct2 [OF ih] e(2)] show ?thesis by simp
  qed
qed

lemma resolve_addr_abs:
  assumes av: "map_of (h_keys h) k = Some av"
  shows "\<exists>rk. resolve (keys (abs_kb h)) k (h_store h av) =
              (rk, h_store h (resolve_addr (h_keys h) k av (h_store h av))) \<and>
              map_of (h_keys h) rk = Some (resolve_addr (h_keys h) k av (h_store h av))"
  using av by (auto simp: resolve_def resolve_addr_def abs_lookup split: option.splits)

lemma latch_obj_after_abs:
  assumes inv: "heap_inv h" and ra: "map_of (h_keys h) rk = Some a" and fr: "hframe (heap_state r) h"
  shows "map_live (latch_obj_after a r) = set_latch_after rk (map_live r) \<and>
         hframe (heap_state (latch_obj_after a r)) h"
proof (cases r)
  case (Inl x)
  with fr show ?thesis
    by (auto simp: latch_obj_after_def set_latch_after_def map_live_def heap_state_def split: prod.splits)
next
  case (Inr w)
  obtain h' tr' where w: "w = (h', tr')" by fastforce
  with fr Inr have f': "hframe h' h" by (simp add: heap_state_def)
  have "heap_inv h'" using hframe_inv [OF f'] inv by simp
  moreover have "map_of (h_keys h') rk = Some a" using f' ra by (simp add: hframe_def)
  ultimately have "abs_kb (write_obj a (\<lambda>x. x\<lparr>toggle_state := True\<rparr>) h') =
                   write_entry rk (\<lambda>x. x\<lparr>toggle_state := True\<rparr>) (abs_kb h')"
    by (rule write_obj_abs)
  with Inr w f' show ?thesis
    by (simp add: latch_obj_after_def set_latch_after_def map_live_def heap_state_def hframe_def write_obj_def)
qed

lemma update_key_heap_abs:
  assumes inv: "heap_inv h" and eff: "\<And>f. eff f = map HMethod (effb f)"
  shows "map_live (update_key_heap ok eff p k (h, tr)) = update_key_live ok effb p k (abs_kb h, tr) \<and>
         hframe (heap_state (update_key_heap ok eff p k (h, tr))) h"
proof (cases "map_of (h_keys h) k")
  case None
  then show ?thesis
    by (simp add: update_key_heap_def update_key_live_def map_live_def heap_state_def abs_lookup)
next
  case (Some av)
  obtain ra where ra: "resolve_addr (h_keys h) k av (h_store h av) = ra" by simp
  obtain e where e: "h_store h ra = e" by simp
  obtain rk where R: "resolve (keys (abs_kb h)) k (h_store h av) = (rk, e)" and ma: "map_of (h_keys h) rk = Some ra"
    using resolve_addr_abs [OF Some] ra e by blast
  have lk: "map_of (keys (abs_kb h)) k = Some (h_store h av)" using Some by (simp add: abs_lookup)
  let ?h1 = "write_obj ra (\<lambda>x. x\<lparr>is_pressed := True\<rparr>) h"
  have i1: "heap_inv ?h1" using inv by simp
  have m1: "map_of (h_keys ?h1) rk = Some ra" using ma by (simp add: write_obj_def)
  have a1: "abs_kb ?h1 = write_entry rk (\<lambda>x. x\<lparr>is_pressed := True\<rparr>) (abs_kb h)"
    by (rule write_obj_abs [OF inv ma])
  let ?C1 = "call_bind_heap ok eff ra True (length (head_funcs e)) 0 ?h1 tr"
  have c1: "map_live ?C1 = call_bind_live ok effb rk True (length (head_funcs e)) 0 (abs_kb ?h1) tr"
    and f1: "hframe (heap_state ?C1) h"
    using call_bind_heap_abs [where eff = eff and effb = effb and ok = ok and from_head = True and n = "length (head_funcs e)"
        and i = 0 and tr = tr, OF i1 m1 eff]
      hframe_trans [OF _ write_obj_hframe] by auto
  have head: "map_live (latch_obj_after ra ?C1) =
                set_latch_after rk (call_bind_live ok effb rk True (length (head_funcs e)) 0 (abs_kb ?h1) tr) \<and>
              hframe (heap_state (latch_obj_after ra ?C1)) h"
    using latch_obj_after_abs [OF inv ma f1] c1 by simp
  let ?h0 = "write_obj ra (\<lambda>x. x\<lparr>is_pressed := False\<rparr>) h"
  let ?h2 = "write_obj ra (\<lambda>x. x\<lparr>toggle_state := False\<rparr>) ?h0"
  have i0: "heap_inv ?h0" using inv by simp
  have m0: "map_of (h_keys ?h0) rk = Some ra" using ma by (simp add: write_obj_def)
  have i2: "heap_inv ?h2" using i0 by simp
  have m2: "map_of (h_keys ?h2) rk = Some ra" using ma by (simp add: write_obj_def)
  have f2: "hframe ?h2 h" by (rule hframe_trans [OF write_obj_hframe write_obj_hframe])
  have a0: "abs_kb ?h0 = write_entry rk (\<lambda>x. x\<lparr>is_pressed := False\<rparr>) (abs_kb h)"
    by (rule write_obj_abs [OF inv ma])
  have a2: "abs_kb ?h2 = write_entry rk (\<lambda>x. x\<lparr>toggle_state := False\<rparr>) (abs_kb ?h0)"
    by (rule write_obj_abs [OF i0 m0])
  let ?C2 = "call_bind_heap ok eff ra False (length (tail_funcs e)) 0 ?h2 tr"
  have tail: "map_live ?C2 = call_bind_live ok effb rk False (length (tail_funcs e)) 0 (abs_kb ?h2) tr \<and>
              hframe (heap_state ?C2) h"
    using call_bind_heap_abs [where eff = eff and effb = effb and ok = ok and from_head = False and n = "length (tail_funcs e)"
        and i = 0 and tr = tr, OF i2 m2 eff]
      hframe_trans [OF _ f2] by auto
  have f0: "hframe ?h0 h" by simp
  show ?thesis
    using Some lk R head tail a0 a1 a2 f0 write_obj_hframe [of ra "\<lambda>x. x\<lparr>is_pressed := True\<rparr>" h]
    unfolding update_key_heap_def update_key_live_def
    by (simp add: Let_def map_live_def heap_state_def ra e)
qed

lemma update_loop_heap_abs:
  assumes "heap_inv h" "length (h_keys h) = n0" and eff: "\<And>f. eff f = map HMethod (effb f)"
  shows "map_live (update_loop_heap ok eff p n0 ks (h, tr)) = update_loop_live ok effb p ks (abs_kb h, tr)"
  using assms(1,2)
proof (induction ks arbitrary: h tr)
  case Nil
  then show ?case by (simp add: map_live_def)
next
  case (Cons k ks)
  note U = update_key_heap_abs [where ok = ok and p = p and k = k and tr = tr and eff = eff and effb = effb,
             OF Cons.prems(1) eff]
  show ?case
  proof (cases "update_key_heap ok eff p k (h, tr)")
    case (Inl x)
    obtain ex h' tr' where x: "x = (ex, h', tr')" by (cases x) auto
    with U Inl have "update_key_live ok effb p k (abs_kb h, tr) = Inl (ex, abs_kb h', tr')"
      by (simp add: map_live_def)
    with Inl x Cons.prems(2) show ?thesis by (simp add: map_live_def)
  next
    case (Inr w)
    obtain h' tr' where w: "w = (h', tr')" by fastforce
    with U Inr have u: "update_key_live ok effb p k (abs_kb h, tr) = Inr (abs_kb h', tr')" "hframe h' h"
      by (simp_all add: map_live_def heap_state_def)
    have "heap_inv h'" using hframe_inv [OF u(2)] Cons.prems(1) by simp
    moreover have "length (h_keys h') = n0" using u(2) Cons.prems(2) by (simp add: hframe_def)
    ultimately have "map_live (update_loop_heap ok eff p n0 ks (h', tr')) = update_loop_live ok effb p ks (abs_kb h', tr')"
      by (rule Cons.IH)
    with Inr w u(1) Cons.prems(2) show ?thesis by simp
  qed
qed

text \<open>C33: as long as the callbacks call only the binding methods, \<open>update\<close> on the
  object store is \<open>update\<close> on the dict of KB_Effects: for every object whose keys
  map to distinct, allocated entry objects, and for every focus, sample and set of
  raising callbacks, the outcome read through \<open>abs_kb\<close> is the live model's
  outcome on the object's value.\<close>

theorem update_kb_heap_refines:
  assumes "heap_inv h"
  shows "map_live (update_kb_heap active ok (\<lambda>f. map HMethod (effb f)) p h) = update_kb_live active ok effb p (abs_kb h)"
  using update_loop_heap_abs [OF assms refl, of "\<lambda>f. map HMethod (effb f)" effb ok p "map fst (h_keys h)" "[]"]
  by (simp add: update_kb_heap_def update_kb_live_def map_live_def)

section \<open>Polling idle keys on the store\<close>

lemma release_objs_frame [simp]:
  "h_keys (release_objs as h) = h_keys h" "h_lim (release_objs as h) = h_lim h"
  "h_title (release_objs as h) = h_title h"
  by (induction as arbitrary: h) (simp_all add: write_obj_def)

lemma release_objs_other: "a \<notin> set as \<Longrightarrow> h_store (release_objs as h) a = h_store h a"
  by (induction as arbitrary: h) (simp_all add: write_obj_def)

lemma update_key_heap_idle:
  "map_of (h_keys h) k = Some a \<Longrightarrow> button_mapping (h_store h a) = k \<Longrightarrow> \<not> toggle_state (h_store h a) \<Longrightarrow>
   \<not> p k \<Longrightarrow> update_key_heap ok eff p k (h, tr) = Inr (write_obj a (\<lambda>x. x\<lparr>is_pressed := False\<rparr>) h, tr)"
  by (simp add: update_key_heap_def resolve_addr_def)

lemma update_loop_heap_idle:
  assumes "h_keys h = pre @ ys @ post" "heap_inv h" "length (h_keys h) = n0"
    and "\<forall>(k, a) \<in> set ys. button_mapping (h_store h a) = k \<and> \<not> toggle_state (h_store h a) \<and> \<not> p k"
  shows "update_loop_heap ok eff p n0 (map fst ys @ rest) (h, tr) =
         update_loop_heap ok eff p n0 rest (release_objs (map snd ys) h, tr)"
  using assms
proof (induction ys arbitrary: pre h)
  case Nil
  then show ?case by simp
next
  case (Cons q ys)
  obtain k a where q: "q = (k, a)" by fastforce
  have d: "dict_inv (pre @ (k, a) # ys @ post)" "distinct (map snd (pre @ (k, a) # ys @ post))"
    using Cons.prems(1,2) q by (simp_all add: heap_inv_def)
  have ka: "map_of (h_keys h) k = Some a" using lookup_segment [OF d(1)] Cons.prems(1) q by simp
  have e: "button_mapping (h_store h a) = k" "\<not> toggle_state (h_store h a)" "\<not> p k"
    using Cons.prems(4) q by auto
  let ?h1 = "write_obj a (\<lambda>x. x\<lparr>is_pressed := False\<rparr>) h"
  have ays: "a \<notin> snd ` set ys" using d(2) by simp
  have idle1: "\<forall>(k', a') \<in> set ys. button_mapping (h_store ?h1 a') = k' \<and> \<not> toggle_state (h_store ?h1 a') \<and> \<not> p k'"
  proof (intro ballI, clarify)
    fix k' a' assume m: "(k', a') \<in> set ys"
    then have "a' \<noteq> a" using ays by force
    then have "h_store ?h1 a' = h_store h a'" by (simp add: write_obj_def)
    with m Cons.prems(4) show "button_mapping (h_store ?h1 a') = k' \<and> \<not> toggle_state (h_store ?h1 a') \<and> \<not> p k'"
      by auto
  qed
  have "update_loop_heap ok eff p n0 (map fst ys @ rest) (?h1, tr) =
        update_loop_heap ok eff p n0 rest (release_objs (map snd ys) ?h1, tr)"
    by (rule Cons.IH [where pre = "pre @ [(k, a)]"]) (use Cons.prems q idle1 in \<open>simp_all add: write_obj_def heap_inv_def\<close>)
  then show ?case
    using update_key_heap_idle [where h = h and k = k and a = a and p = p and ok = ok and eff = eff and tr = tr, OF ka e]
      Cons.prems(3) q by simp
qed

lemma update_loop_heap_resized:
  "length (h_keys h) \<noteq> n0 \<Longrightarrow> update_loop_heap ok eff p n0 ks (h, tr) = Inl (PyError RuntimeError, h, tr)"
  by (cases ks) simp_all

text \<open>Callbacks that return without calling a method run through the list of an
  object that no longer changes.\<close>

lemma call_bind_heap_plain:
  assumes l: "(if from_head then head_funcs (h_store h a) else tail_funcs (h_store h a)) = L"
    and calls: "\<forall>g \<in> set (drop i L). ok g \<and> eff g = []" and n: "n = length L" and i: "i \<le> n"
  shows "call_bind_heap ok eff a from_head n i h tr = Inr (h, tr @ drop i L)"
  using calls i
proof (induction "n - i" arbitrary: i tr)
  case 0
  with n show ?case by (simp add: call_bind_heap.simps)
next
  case (Suc m)
  then have il: "i < length L" using n by simp
  then have d: "drop i L = L ! i # drop (Suc i) L" by (simp add: Cons_nth_drop_Suc)
  with Suc.prems have g: "ok (L ! i)" "eff (L ! i) = []" by auto
  have "call_bind_heap ok eff a from_head n (Suc i) h (tr @ [L ! i]) = Inr (h, (tr @ [L ! i]) @ drop (Suc i) L)"
    using Suc.hyps(1) [of "Suc i"] Suc.hyps(2) Suc.prems(1) il d n by simp
  with l n il g d show ?case by (subst call_bind_heap.simps) (simp add: Let_def)
qed

lemma delete_segment:
  "k \<notin> fst ` set xs \<Longrightarrow> k \<notin> fst ` set zs \<Longrightarrow> AList.delete k (xs @ (k, v) # zs) = xs @ zs"
  by (induction xs) auto

text \<open>C35: a callback that removes its own key crashes the poll with \<open>RuntimeError\<close>.
  Let a pressed self-mapped key \<open>a\<close> with its latch clear have the head list
  \<open>f # fs\<close>, where \<open>f\<close> calls \<open>remove_key(a)\<close> and the callbacks of \<open>fs\<close> return
  without calling a method, and let the keys before \<open>a\<close> be idle. The poll calls \<open>f\<close>
  and then all of \<open>fs\<close> from the removed object, sets the latch of that object, and
  then the next step of the iteration over \<open>self.keys\<close> raises \<open>RuntimeError\<close>,
  also when \<open>a\<close> is the last key: \<open>a\<close> is gone from the dict and the objects of the
  keys after it are not polled.\<close>

theorem remove_key_in_callback_raises:
  assumes hk: "h_keys h = xs @ (a, aa) # zs" and inv: "heap_inv h"
    and E: "button_mapping (h_store h aa) = a" "\<not> toggle_state (h_store h aa)" "head_funcs (h_store h aa) = f # fs"
    and eff: "eff f = [HRemoveKey a]" "\<forall>g \<in> set fs. eff g = []"
    and ok: "ok f" "\<forall>g \<in> set fs. ok g" and pa: "p a"
    and idle: "\<forall>(k, b) \<in> set xs. button_mapping (h_store h b) = k \<and> \<not> toggle_state (h_store h b) \<and> \<not> p k"
  shows "\<exists>h'. update_kb_heap (Some (h_title h)) ok eff p h = Inl (PyError RuntimeError, h', f # fs) \<and>
              h_keys h' = xs @ zs \<and> h_store h' aa = (h_store h aa)\<lparr>is_pressed := True, toggle_state := True\<rparr> \<and>
              (\<forall>(k, b) \<in> set zs. h_store h' b = h_store h b)"
proof -
  let ?n0 = "length (h_keys h)"
  have d: "dict_inv (xs @ (a, aa) # zs)" "distinct (map snd (xs @ (a, aa) # zs))"
    using inv hk by (simp_all add: heap_inv_def)
  let ?h0 = "release_objs (map snd xs) h"
  have p1: "update_loop_heap ok eff p ?n0 (map fst (h_keys h)) (h, []) =
            update_loop_heap ok eff p ?n0 (a # map fst zs) (?h0, [])"
    using update_loop_heap_idle [of h "[]" xs "(a, aa) # zs" ?n0 p ok eff "a # map fst zs" "[]"] hk inv idle
    by simp
  have aax: "aa \<notin> set (map snd xs)" using d(2) by auto
  have s0: "h_store ?h0 aa = h_store h aa" by (rule release_objs_other [OF aax])
  have ka: "map_of (h_keys ?h0) a = Some aa" using lookup_segment [OF d(1)] hk by simp
  let ?h1 = "write_obj aa (\<lambda>x. x\<lparr>is_pressed := True\<rparr>) ?h0"
  let ?h2 = "?h1\<lparr>h_keys := AList.delete a (h_keys ?h1)\<rparr>"
  have ops: "exec_heap_ops (eff f) ?h1 = Inr ?h2"
    using eff(1) ka by (simp add: h_remove_key_def write_obj_def)
  have rest: "call_bind_heap ok eff aa True (length (f # fs)) 1 ?h2 [f] = Inr (?h2, [f] @ fs)"
    using call_bind_heap_plain [where from_head = True and h = ?h2 and a = aa and L = "f # fs" and ok = ok and eff = eff
      and n = "length (f # fs)" and i = 1 and tr = "[f]"] eff(2) ok(2) s0 E(3)
    by (simp add: write_obj_def)
  have cb: "call_bind_heap ok eff aa True (length (head_funcs (h_store ?h0 aa))) 0 ?h1 [] = Inr (?h2, f # fs)"
    using rest ops ok(1) s0 E(3) by (subst call_bind_heap.simps) (simp add: Let_def write_obj_def)
  let ?h3 = "write_obj aa (\<lambda>x. x\<lparr>toggle_state := True\<rparr>) ?h2"
  have body: "update_key_heap ok eff p a (?h0, []) = Inr (?h3, f # fs)"
    using ka s0 E(1,2) pa cb by (simp add: update_key_heap_def resolve_addr_def latch_obj_after_def Let_def)
  have ax: "a \<notin> fst ` set xs" "a \<notin> fst ` set zs" using d(1) by auto
  have k3: "h_keys ?h3 = xs @ zs" using hk ax by (simp add: write_obj_def delete_segment)
  have "length (h_keys ?h3) \<noteq> ?n0" using k3 hk by simp
  then have "update_loop_heap ok eff p ?n0 (a # map fst zs) (?h0, []) = Inl (PyError RuntimeError, ?h3, f # fs)"
    using body hk by (simp add: update_loop_heap_resized)
  moreover have "h_store ?h3 aa = (h_store h aa)\<lparr>is_pressed := True, toggle_state := True\<rparr>"
    using s0 by (simp add: write_obj_def)
  moreover have "\<forall>(k, b) \<in> set zs. h_store ?h3 b = h_store h b"
  proof (intro ballI, clarify)
    fix k b assume m: "(k, b) \<in> set zs"
    then have "b \<noteq> aa" "b \<notin> set (map snd xs)" using d(2) by force+
    then show "h_store ?h3 b = h_store h b" by (simp add: write_obj_def release_objs_other)
  qed
  ultimately show ?thesis
    using p1 k3 by (auto simp: update_kb_heap_def is_app_active_def)
qed

lemma store_back_outside: "b \<notin> snd ` set hks \<Longrightarrow> store_back hks ks st b = st b"
  by (induction hks ks st rule: store_back.induct) auto

lemma snd_update_set: "snd ` set (AList.update k L xs) \<subseteq> insert L (snd ` set xs)"
  by (induction xs) auto

lemma distinct_update_fresh:
  "\<forall>b \<in> snd ` set xs. b < (L :: nat) \<Longrightarrow> distinct (map snd xs) \<Longrightarrow> distinct (map snd (AList.update k L xs))"
proof (induction xs)
  case (Cons q xs)
  obtain k' v where q: "q = (k', v)" by fastforce
  show ?case
  proof (cases "k' = k")
    case True
    have lt: "\<forall>b \<in> snd ` set xs. b < L" using Cons.prems(1) by simp
    have "L \<notin> snd ` set xs"
    proof
      assume "L \<in> snd ` set xs"
      with lt have "L < L" by (rule bspec)
      then show False by simp
    qed
    with Cons.prems(2) q True show ?thesis by simp
  next
    case False
    have "v \<notin> snd ` set (AList.update k L xs)"
      using Cons.prems q snd_update_set [of k L xs] by auto
    with Cons q False show ?thesis by simp
  qed
qed simp

lemma h_add_key_inv:
  assumes "heap_inv h"
  shows "heap_inv (h_add_key h k rm t)"
proof -
  have "distinct (map snd (AList.update k (h_lim h) (h_keys h)))"
    using assms by (intro distinct_update_fresh) (auto simp: heap_inv_def)
  moreover have "\<forall>b \<in> snd ` set (AList.update k (h_lim h) (h_keys h)). b < Suc (h_lim h)"
    using assms snd_update_set [of k "h_lim h" "h_keys h"] by (force simp: heap_inv_def)
  ultimately show ?thesis using assms by (simp add: heap_inv_def h_add_key_def Let_def distinct_update)
qed

text \<open>\<open>add_key(a)\<close> followed by \<open>bind(a, f)\<close>: \<open>a\<close> maps to a fresh object bound to
  \<open>f\<close>; no other object changes.\<close>

lemma readd_rebind_ops:
  assumes inv: "heap_inv h" and ka: "map_of (h_keys h) a = Some aa"
  shows "\<exists>h3. exec_heap_ops [HAddKey a None True, HMethod (OpBind a (Some f) None True)] h = Inr h3 \<and>
           h_keys h3 = AList.update a (h_lim h) (h_keys h) \<and> h_lim h3 = Suc (h_lim h) \<and> h_title h3 = h_title h \<and>
           h_store h3 (h_lim h) = (new_entry a True)\<lparr>head_funcs := [f]\<rparr> \<and>
           (\<forall>b. b \<noteq> h_lim h \<longrightarrow> h_store h3 b = h_store h b)"
proof -
  let ?L = "h_lim h"
  let ?h2 = "h_add_key h a None True"
  have i2: "heap_inv ?h2" by (rule h_add_key_inv [OF inv])
  have k2: "h_keys ?h2 = AList.update a ?L (h_keys h)" by (simp add: h_add_key_def Let_def)
  have l2: "map_of (keys (abs_kb ?h2)) a = Some (new_entry a True)"
    by (simp add: abs_lookup h_add_key_def Let_def)
  let ?kb' = "snd (bind_kb (abs_kb ?h2) a (Some f) None True)"
  have op: "exec_bind_op (OpBind a (Some f) None True) (abs_kb ?h2) = Inr ?kb'" by simp
  let ?h3 = "?h2\<lparr>h_store := store_back (h_keys ?h2) (keys ?kb') (h_store ?h2)\<rparr>"
  have ex: "exec_heap_ops [HAddKey a None True, HMethod (OpBind a (Some f) None True)] h = Inr ?h3"
    using h_method_abs(1) [OF i2 op] by simp
  have a3: "abs_kb ?h3 = ?kb'" by (rule h_method_abs(2) [OF i2 op])
  have kb': "keys ?kb' = AList.update a ((new_entry a True)\<lparr>head_funcs := [f]\<rparr>) (keys (abs_kb ?h2))"
    using l2 by (simp add: bind_kb_def new_entry_def)
  have la: "map_of (h_keys ?h2) a = Some ?L" using k2 by simp
  have sL: "h_store ?h3 ?L = (new_entry a True)\<lparr>head_funcs := [f]\<rparr>"
    using arg_cong [OF a3, of "\<lambda>kb. map_of (keys kb) a"] kb' la by (simp add: abs_lookup)
  have other: "h_store ?h3 b = h_store h b" if b: "b \<noteq> ?L" for b
  proof (cases "b \<in> snd ` set (h_keys ?h2)")
    case True
    then obtain k' where m: "(k', b) \<in> set (h_keys ?h2)" by force
    then have mk: "map_of (h_keys ?h2) k' = Some b" using i2 by (simp add: heap_inv_def)
    with la b have "k' \<noteq> a" by auto
    then have "map_of (keys (abs_kb ?h3)) k' = map_of (keys (abs_kb ?h2)) k'" using a3 kb' by simp
    with mk have "h_store ?h3 b = h_store ?h2 b" by (simp add: abs_lookup)
    with b show ?thesis by (simp add: h_add_key_def Let_def)
  next
    case False
    with b show ?thesis by (simp add: store_back_outside h_add_key_def Let_def)
  qed
  show ?thesis
    using ex k2 sL other by (intro exI [of _ ?h3]) (simp add: h_add_key_def Let_def)
qed

lemma heap_inv_cong: "h_keys h' = h_keys h \<Longrightarrow> h_lim h' = h_lim h \<Longrightarrow> heap_inv h' = heap_inv h"
  by (simp add: heap_inv_def)

text \<open>C34: a callback that re-registers its own key leaves the latch on the old
  object. Let a pressed self-mapped key \<open>a\<close> with its latch clear have the head
  list \<open>[f]\<close>, where \<open>f\<close> calls \<open>add_key(a)\<close> and then \<open>bind(a, f)\<close> (a callback
  that resets its key and binds itself again), and let every other key be idle.
  The poll calls \<open>f\<close> once and returns. \<open>a\<close> now maps to a fresh object, in edge
  mode, bound to \<open>f\<close>, with its press flag and latch clear, although \<open>a\<close> is held:
  \<open>update\<close> wrote the press flag and the latch into the old object, which is no
  longer in the dict. So the next poll with \<open>a\<close> still held fires \<open>f\<close> again (the
  theorem applies again to the new object), and edge mode fires on every held poll.\<close>

theorem readd_key_in_callback_strands_latch:
  assumes hk: "h_keys h = xs @ (a, aa) # zs" and inv: "heap_inv h"
    and E: "button_mapping (h_store h aa) = a" "\<not> toggle_state (h_store h aa)" "head_funcs (h_store h aa) = [f]"
    and eff: "eff f = [HAddKey a None True, HMethod (OpBind a (Some f) None True)]" and okf: "ok f" and pa: "p a"
    and idle: "\<forall>(k, b) \<in> set xs. button_mapping (h_store h b) = k \<and> \<not> toggle_state (h_store h b) \<and> \<not> p k"
    and idlez: "\<forall>(k, b) \<in> set zs. button_mapping (h_store h b) = k \<and> \<not> toggle_state (h_store h b) \<and> \<not> p k"
  shows "\<exists>h'. update_kb_heap (Some (h_title h)) ok eff p h = Inr (h', [f]) \<and>
              h_keys h' = xs @ (a, h_lim h) # zs \<and>
              h_store h' (h_lim h) = (new_entry a True)\<lparr>head_funcs := [f]\<rparr> \<and>
              h_store h' aa = (h_store h aa)\<lparr>is_pressed := True, toggle_state := True\<rparr>"
proof -
  let ?n0 = "length (h_keys h)"
  let ?L = "h_lim h"
  have d: "dict_inv (xs @ (a, aa) # zs)" "distinct (map snd (xs @ (a, aa) # zs))"
    "\<forall>b \<in> snd ` set (xs @ (a, aa) # zs). b < ?L"
    using inv hk by (simp_all add: heap_inv_def)
  let ?h0 = "release_objs (map snd xs) h"
  have p1: "update_loop_heap ok eff p ?n0 (map fst (h_keys h)) (h, []) =
            update_loop_heap ok eff p ?n0 (a # map fst zs) (?h0, [])"
    using update_loop_heap_idle [of h "[]" xs "(a, aa) # zs" ?n0 p ok eff "a # map fst zs" "[]"] hk inv idle
    by simp
  have aax: "aa \<notin> set (map snd xs)" using d(2) by auto
  have s0: "h_store ?h0 aa = h_store h aa" by (rule release_objs_other [OF aax])
  have ka: "map_of (h_keys ?h0) a = Some aa" using lookup_segment [OF d(1)] hk by simp
  let ?h1 = "write_obj aa (\<lambda>x. x\<lparr>is_pressed := True\<rparr>) ?h0"
  have i1: "heap_inv ?h1" using inv by (simp add: heap_inv_cong [of ?h0 h])
  have ka1: "map_of (h_keys ?h1) a = Some aa" using ka by (simp add: write_obj_def)
  obtain h3 where h3: "exec_heap_ops (eff f) ?h1 = Inr h3" "h_keys h3 = AList.update a ?L (h_keys ?h1)"
      "h_lim h3 = Suc ?L" "h_title h3 = h_title h" "h_store h3 ?L = (new_entry a True)\<lparr>head_funcs := [f]\<rparr>"
      "\<forall>b. b \<noteq> ?L \<longrightarrow> h_store h3 b = h_store ?h1 b"
    using readd_rebind_ops [OF i1 ka1, of f] eff by (auto simp: write_obj_def)
  have cb: "call_bind_heap ok eff aa True (length (head_funcs (h_store ?h0 aa))) 0 ?h1 [] = Inr (h3, [f])"
    using h3(1) okf s0 E(3) by (subst call_bind_heap.simps) (simp add: Let_def write_obj_def call_bind_heap.simps)
  let ?h4 = "write_obj aa (\<lambda>x. x\<lparr>toggle_state := True\<rparr>) h3"
  have body: "update_key_heap ok eff p a (?h0, []) = Inr (?h4, [f])"
    using ka s0 E(1,2) pa cb by (simp add: update_key_heap_def resolve_addr_def latch_obj_after_def Let_def)
  have ax: "a \<notin> fst ` set xs" using d(1) by auto
  have k4: "h_keys ?h4 = (xs @ [(a, ?L)]) @ zs @ []"
    using h3(2) hk ax by (simp add: write_obj_def update_segment)
  have i4: "heap_inv ?h4"
  proof -
    have "heap_inv (h_add_key ?h1 a None True)" by (rule h_add_key_inv [OF i1])
    moreover have "h_keys (h_add_key ?h1 a None True) = h_keys ?h4" "h_lim (h_add_key ?h1 a None True) = h_lim ?h4"
      using h3(2,3) by (simp_all add: h_add_key_def Let_def write_obj_def)
    ultimately show ?thesis using heap_inv_cong by metis
  qed
  have aaL: "aa \<noteq> ?L" using d(3) by auto
  have zs_store: "h_store ?h4 b = h_store h b" if m: "(k, b) \<in> set zs" for k b
  proof -
    have "b \<noteq> aa" "b \<notin> set (map snd xs)" using d(2) m by force+
    moreover have "b \<noteq> ?L" using d(3) m by force
    ultimately show ?thesis using h3(6) by (simp add: write_obj_def release_objs_other)
  qed
  have idle4: "\<forall>(k, b) \<in> set zs. button_mapping (h_store ?h4 b) = k \<and> \<not> toggle_state (h_store ?h4 b) \<and> \<not> p k"
    using idlez zs_store by auto
  have n4: "length (h_keys ?h4) = ?n0" using k4 hk by simp
  have p3: "update_loop_heap ok eff p ?n0 (map fst zs @ []) (?h4, [f]) =
            update_loop_heap ok eff p ?n0 [] (release_objs (map snd zs) ?h4, [f])"
    by (rule update_loop_heap_idle [OF k4 i4 n4 idle4])
  let ?h5 = "release_objs (map snd zs) ?h4"
  have Lz: "?L \<notin> set (map snd zs)" and aaz: "aa \<notin> set (map snd zs)" using d(2,3) by force+
  have "h_store ?h5 ?L = (new_entry a True)\<lparr>head_funcs := [f]\<rparr>"
    using h3(5) aaL by (simp add: release_objs_other [OF Lz] write_obj_def)
  moreover have "h_store ?h5 aa = (h_store h aa)\<lparr>is_pressed := True, toggle_state := True\<rparr>"
    using h3(6) aaL s0 by (simp add: release_objs_other [OF aaz] write_obj_def)
  moreover have "update_kb_heap (Some (h_title h)) ok eff p h = Inr (?h5, [f])"
    using p1 body p3 n4 hk by (simp add: update_kb_heap_def is_app_active_def)
  ultimately show ?thesis using k4 by (intro exI [of _ ?h5]) simp
qed

section \<open>Witnesses\<close>

theorem update_kb_heap_refines_witness:
  "heap_inv \<lparr>h_title = ''Game'', h_keys = [(''a'', 0), (''b'', 1)],
             h_store = (\<lambda>_. new_entry ''b'' True)(0 := demo_entry True), h_lim = 2\<rparr> \<and>
   map_live (update_kb_heap (Some ''Game'') (\<lambda>_. True) (\<lambda>f. map HMethod [OpChangeToggle ''b'']) (\<lambda>k. k = ''a'')
     \<lparr>h_title = ''Game'', h_keys = [(''a'', 0), (''b'', 1)],
      h_store = (\<lambda>_. new_entry ''b'' True)(0 := demo_entry True), h_lim = 2\<rparr>) =
   update_kb_live (Some ''Game'') (\<lambda>_. True) (\<lambda>_. [OpChangeToggle ''b'']) (\<lambda>k. k = ''a'')
     (abs_kb \<lparr>h_title = ''Game'', h_keys = [(''a'', 0), (''b'', 1)],
      h_store = (\<lambda>_. new_entry ''b'' True)(0 := demo_entry True), h_lim = 2\<rparr>)"
  using update_kb_heap_refines [of "\<lparr>h_title = ''Game'', h_keys = [(''a'', 0), (''b'', 1)],
      h_store = (\<lambda>_. new_entry ''b'' True)(0 := demo_entry True), h_lim = 2\<rparr>" "Some ''Game''" "\<lambda>_. True"
      "\<lambda>_. [OpChangeToggle ''b'']" "\<lambda>k. k = ''a''"]
  by (simp add: heap_inv_def)

theorem readd_key_in_callback_strands_latch_witness:
  "\<exists>h'. update_kb_heap (Some ''Game'') (\<lambda>_. True)
      (\<lambda>c. if c = 1 then [HAddKey ''a'' None True, HMethod (OpBind ''a'' (Some 1) None True)] else []) (\<lambda>k. k = ''a'')
      \<lparr>h_title = ''Game'', h_keys = [(''a'', 0), (''b'', 1)],
      h_store = (\<lambda>_. new_entry ''b'' True)(0 := (demo_entry True)\<lparr>head_funcs := [1]\<rparr>), h_lim = 2\<rparr> = Inr (h', [1]) \<and>
    h_keys h' = [(''a'', 2), (''b'', 1)] \<and> h_store h' 2 = (new_entry ''a'' True)\<lparr>head_funcs := [1]\<rparr> \<and>
    h_store h' 0 = (demo_entry True)\<lparr>head_funcs := [1], is_pressed := True, toggle_state := True\<rparr>"
  using readd_key_in_callback_strands_latch [where h = "\<lparr>h_title = ''Game'', h_keys = [(''a'', 0), (''b'', 1)],
      h_store = (\<lambda>_. new_entry ''b'' True)(0 := (demo_entry True)\<lparr>head_funcs := [1]\<rparr>), h_lim = 2\<rparr>" and xs = "[]" and a = "''a''" and aa = 0
      and zs = "[(''b'', 1)]" and f = 1
      and eff = "\<lambda>c. if c = (1::nat) then [HAddKey ''a'' None True, HMethod (OpBind ''a'' (Some 1) None True)] else []"
      and ok = "\<lambda>_. True" and p = "\<lambda>k. k = ''a''"]
  by (simp add: heap_inv_def demo_entry_def new_entry_def)

theorem remove_key_in_callback_raises_witness:
  "\<exists>h'. update_kb_heap (Some ''Game'') (\<lambda>_. True) (\<lambda>c. if c = 1 then [HRemoveKey ''a''] else []) (\<lambda>k. k = ''a'')
      \<lparr>h_title = ''Game'', h_keys = [(''a'', 0), (''b'', 1)],
      h_store = (\<lambda>_. new_entry ''b'' True)(0 := (demo_entry True)\<lparr>head_funcs := [1, 3]\<rparr>), h_lim = 2\<rparr> = Inl (PyError RuntimeError, h', [1, 3]) \<and>
    h_keys h' = [(''b'', 1)] \<and>
    h_store h' 0 = (demo_entry True)\<lparr>head_funcs := [1, 3], is_pressed := True, toggle_state := True\<rparr>"
  using remove_key_in_callback_raises [where h = "\<lparr>h_title = ''Game'', h_keys = [(''a'', 0), (''b'', 1)],
      h_store = (\<lambda>_. new_entry ''b'' True)(0 := (demo_entry True)\<lparr>head_funcs := [1, 3]\<rparr>), h_lim = 2\<rparr>" and xs = "[]" and a = "''a''" and aa = 0
      and zs = "[(''b'', 1)]" and f = 1 and fs = "[3]"
      and eff = "\<lambda>c. if c = (1::nat) then [HRemoveKey ''a''] else []"
      and ok = "\<lambda>_. True" and p = "\<lambda>k. k = ''a''"]
  by (simp add: heap_inv_def demo_entry_def new_entry_def) blast

end
