(* ===== verification/Spec2Isabelle.thy ===== *)
theory Spec2Isabelle
  imports KB_Chain KB_Interleave KB_Raise KB_Runs KB_Bounds KB_Storage KB_Abstract KB_Heap
begin

text \<open>
  \<^bold>\<open>Keyboard_binding: a verified model of src/Keyboard_binding.py.\<close>

  The program is one class, \<open>keyboard_binding\<close>. Its state is the title of the
  application window it serves and the dict \<open>self.keys\<close> from key names to five-slot
  entries \<open>[mapping, is_pressed, toggle_state, toggle_enable, [heads, tails]]\<close>. Its
  parts: the constructor with the default key set (lines 43-91); persistence
  (\<open>load_keys\<close>, \<open>save_keys\<close>, lines 100-123); key manipulation (\<open>add_key\<close>,
  \<open>change_toggle\<close>, \<open>remove_key\<close>, \<open>remap\<close>, lines 130-169); binding manipulation
  (\<open>bind\<close>, \<open>bulk_bind\<close>, \<open>clear_bind\<close>, \<open>remove_bind\<close>, \<open>swap_binds\<close>,
  \<open>get_binds\<close>, lines 178-269); and the handler \<open>update\<close> (lines 276-321), which
  an external driver calls once per frame. \<open>update\<close> asks the focus oracle
  (\<open>pygetwindow\<close>) whether the application is focused, then visits every key in dict
  order, resolves its entry one hop through the mapping, samples the key-state source
  (\<open>keyboard.is_pressed\<close>) and runs the edge/continuous state machine on the resolved
  entry, calling its head or tail callbacks. The methods and \<open>update\<close> share only
  \<open>self.keys\<close>.

  \<^bold>\<open>Theories.\<close>
  \<^item> KB_Prelude: Python dicts as insertion-ordered association lists
    (\<open>map_of\<close>, \<open>AList.update\<close>, \<open>AList.delete\<close>), callback outcomes
    (\<open>Inl (f, s)\<close>: callback \<open>f\<close> raised in state \<open>s\<close>), Python errors, and the shared
    dict lemmas (collection \<open>dict_simps\<close>).
  \<^item> KB_Entry: the entry record \<open>key_entry\<close>, \<open>new_entry\<close> (the list literal of
    \<open>add_key\<close> and the constructor), \<open>call_bind\<close> (\<open>__call_bind\<close>), and
    \<open>poll_entry\<close>/\<open>fire_head\<close>, lines 307-321 of \<open>update\<close> acting on the resolved
    entry, with the specification's per-entry step (\<open>entry_next\<close>, \<open>entry_calls\<close>,
    section 4.3). Lemmas: the result of a poll on every branch, that a poll writes only the
    press flag and the latch, press/release over many polls in edge and continuous
    mode (C3, C4), and a raising head callback (C13).
  \<^item> KB_Registry: the object record \<open>keyboard_binding\<close>, the constructor, and one
    definition per method (\<open>bind\<close> is \<open>bind_kb\<close>). Methods returning a boolean return
    the pair of it and the new object; \<open>remove_bind\<close> returns \<open>Inl TypeError\<close> where
    Python raises. Lemmas: each method's result, failure on an absent key (C14, C9),
    \<open>remove_bind\<close>'s index loop against \<open>remove1\<close> (C8), the exchange performed by \<open>swap_binds\<close> (C10),
    frame conditions and the invariants.
  \<^item> KB_Storage: \<open>load_keys\<close> on the parsed JSON object and \<open>save_keys\<close> returning
    the written object or \<open>OSError\<close>. Lemmas: merge semantics (C12, C15), save/load
    round trip into any object with the same keys (C11).
  \<^item> KB_Update: \<open>is_app_active\<close>, \<open>resolve\<close>, the loop body \<open>update_key\<close>, the
    loop \<open>update_loop\<close>, the handler \<open>update_kb\<close>, and the driver \<open>run_updates\<close>.
    Lemmas: focus gating (C5), the frame of a poll (C6), the latch invariant (C7), and
    the equivalence of the in-place loop with a snapshot semantics when no two keys
    resolve to the same entry (C2); without remaps and raising callbacks, one poll is
    the product of the per-key steps \<open>entry_next\<close>/\<open>entry_calls\<close>
    (\<open>update_kb_without_remaps\<close>).
  \<^item> KB_Abstract: the contract of the mutation API (specification section 4.2) on
    an abstract registry, a finite map from keys to entries (\<open>spec_edit\<close>,
    \<open>spec_add_key\<close>, \<open>spec_remove_key\<close>, \<open>spec_remove_binding\<close>,
    \<open>spec_swap\<close>, \<open>spec_get\<close>), and the refinement of every method against it
    through the abstraction \<open>kb_map\<close> = \<open>map_of\<close> of the dict (C17).
  \<^item> KB_Session: runs of the driver \<open>run_updates\<close>; composing and repeating polls,
    polling a segment of idle self-mapped keys (\<open>released\<close>), and the whole-object press/hold/release run of one key in both modes (C16).
  \<^item> KB_Remap: the remap defect in general form: with \<open>a\<close> remapped to a later
    self-mapped key \<open>b\<close>, every poll while \<open>a\<close> is held calls \<open>b\<close>'s head and
    then its tail callbacks, whatever the other keys and in either mode (C18); over a
    whole press
    and release \<open>b\<close>'s head and tail are called once per held poll whether \<open>b\<close> comes
    before or after \<open>a\<close> in the dict (C20).
  \<^item> KB_Chain: remap chains; resolution is one hop, and with \<open>a\<close> remapped to
    \<open>b\<close> and \<open>b\<close> to \<open>c\<close> pressing \<open>a\<close> fires \<open>b\<close>'s callbacks with \<open>b\<close>'s mode
    and never \<open>c\<close>'s (C25).
  \<^item> KB_Interleave: a method called between polls: \<open>remap(a, b)\<close> while \<open>a\<close> is
    held strands \<open>a\<close>'s latch, and its tail waits until the remap is undone (C27).
  \<^item> KB_Raise: a raising callback ends the poll: the keys after it are not polled in
    that frame, so a latched key there misses its release (C19); a raising tail
    callback has already cleared its latch and is not retried (C26).
  \<^item> KB_Runs: whole runs without remaps are the product of the per-key machines on
    the focused polls (C21); a latched key's tail fires at the first focused poll in
    which it is up (C22); a press and release completed while unfocused is lost (C23).
  \<^item> KB_Bounds: one poll calls at most \<open>poll_bound\<close> callbacks, the sum over the
    keys of the longer list of each resolved entry, for every registry (C24).
  \<^item> KB_Effects: callbacks that call the binding methods while \<open>update\<close> runs.
    A callback's effect is the list of method calls it makes (\<open>bind_op\<close>,
    \<open>exec_bind_ops\<close>); \<open>call_bind_live\<close> is \<open>__call_bind\<close> on the live object
    (bound fixed at the start, list read afresh at each index, \<open>IndexError\<close> past its
    end), and \<open>update_key_live\<close>, \<open>update_loop_live\<close>, \<open>update_kb_live\<close> are
    \<open>update\<close> writing the press flag and latch in place (\<open>write_entry\<close>). Without
    effects this is \<open>update_kb\<close> (C28); the loop makes at most the calls fixed at its
    start (C30); a self-unbinding callback skips its successor and raises
    \<open>IndexError\<close> (C29); a callback binding a new head callback to its own key is
    called at every index instead of the rest of the list (C31).
  \<^item> KB_LiveInv: the shape of the object under live polls. The binding methods keep
    every key's press flag and latch (\<open>kb_flags\<close>) and the title; \<open>update\<close> writes
    only the resolved entry's flags, so every live poll, whatever its callbacks do and
    wherever it stops, keeps the keys in their order, the title and the latch
    invariant (C32).
  \<^item> KB_Heap: the entry objects as an explicit store, for callbacks that also call
    \<open>add_key\<close> and \<open>remove_key\<close>. \<open>h_keys\<close> maps keys to addresses, \<open>h_store\<close>
    maps addresses to entries, and \<open>h_add_key\<close> allocates a fresh object at
    \<open>h_lim\<close>. \<open>update_key_heap\<close> holds the resolved object's address
    (\<open>resolve_addr\<close>) across its callbacks, and \<open>update_loop_heap\<close> raises
    \<open>RuntimeError\<close> at any iteration step once the dict's size differs from its
    start. With binding-method callbacks only, the store model refines KB_Effects
    through \<open>abs_kb\<close> under \<open>heap_inv\<close> (distinct keys, distinct allocated objects)
    (C33). A callback that re-adds its own key leaves the latch on the detached object
    (C34); one that removes its own key crashes the poll with \<open>RuntimeError\<close> (C35).
  \<^item> Spec2Isabelle (this theory): every state-changing method as an operation
    \<open>kb_op\<close>, the reachable states, the invariant of all of them (C1).

  \<^bold>\<open>Modelling choices.\<close> Callbacks are opaque values of a type \<open>'cb\<close>; HOL equality
  stands for Python's \<open>==\<close>; a parameter \<open>ok\<close> says which callbacks return, and a
  raising one ends \<open>update\<close> with the writes made so far kept (the source mutates in
  place). The trace of called callbacks is the observable effect. The press flag and
  latch hold only 0 and 1 and are booleans. The focus oracle and the key-state source
  are inputs of \<open>update_kb\<close> (one sample per key and poll). No loop needs fuel: every
  loop runs over a finite list, and the index loop of \<open>remove_bind\<close> is a
  \<^theory_text>\<open>function\<close> with the measure \<open>length l - i\<close>. Every loop of the source
  runs over a finite range or over the dict, so every HOL function of the model is
  total by construction. The one loop whose list can grow while it runs is
  \<open>__call_bind\<close> under callbacks with effects; \<open>call_bind_live\<close> is a
  \<^theory_text>\<open>function\<close> with the measure \<open>Suc n - i\<close> (so is \<open>call_bind_heap\<close>), and C30 states
  the bound on its calls.

  \<^bold>\<open>Not modelled.\<close> JSON parsing and file I/O (library code; \<open>load_keys\<close> receives the
  parsed object or \<open>None\<close> for any failure). Targets are strings: a JSON value of
  another type stored as a target by \<open>load_keys\<close> would need the mapping slot and
  the outcome of \<open>update\<close> to carry Python's dynamic types (an unhashable target
  makes \<open>self.keys.get\<close> raise \<open>TypeError\<close>), which is recorded as a finding
  instead; the libraries \<open>keyboard\<close> and \<open>pygetwindow\<close> (inputs). Callbacks that
  call \<open>load_keys\<close> while \<open>update\<close> runs (its effects are those of \<open>add_key\<close> and
  of writes to the mapping slot, both modelled separately). Callbacks that remove
  keys and add others so that the dict's size is back to its start value: CPython's
  iteration then follows the hash table's layout, which the language leaves
  unspecified; KB_Heap visits the keys of the starting order, skipping removed ones,
  and does not visit the added keys. Callers mutating the lists \<open>get_binds\<close>
  returns (it returns the live lists).

  \<^bold>\<open>Plan for later work.\<close> Runs with remaps and several keys held at once (the
  product form of C21 fails there, by C18); the remap chain in other dict orders;
  other methods interleaved with polls (\<open>change_toggle\<close>, \<open>remove_key\<close> of a held
  key); effects of tail callbacks and of callbacks of remapped keys in KB_Effects and
  KB_Heap.
\<close>

section \<open>The object's operations and its reachable states\<close>

text \<open>Every method that changes the object, as one step. A method's boolean result is
  dropped; \<open>remove_bind\<close> raising leaves the object as it was; an \<open>update\<close> whose
  callback raised leaves the writes made before the exception.\<close>

datatype 'cb kb_op =
    AddKey key "key option" bool
  | ChangeToggle key
  | RemoveKey key
  | Remap key key
  | Bind key "'cb option" "'cb option" bool
  | BulkBind key "'cb list option" "'cb list option" bool
  | ClearBind key
  | RemoveBind key bool 'cb
  | SwapBinds key key
  | LoadKeys "(key \<times> key) list option"
  | Update "string option" "'cb \<Rightarrow> bool" "key \<Rightarrow> bool"

fun exec_op :: "'cb kb_op \<Rightarrow> 'cb keyboard_binding \<Rightarrow> 'cb keyboard_binding" where
  "exec_op (AddKey k rm tg) kb = add_key kb k rm tg"
| "exec_op (ChangeToggle k) kb = snd (change_toggle kb k)"
| "exec_op (RemoveKey k) kb = snd (remove_key kb k)"
| "exec_op (Remap k to_key) kb = snd (remap kb k to_key)"
| "exec_op (Bind k hf tf tg) kb = snd (bind_kb kb k hf tf tg)"
| "exec_op (BulkBind k hl tls tg) kb = snd (bulk_bind kb k hl tls tg)"
| "exec_op (ClearBind k) kb = snd (clear_bind kb k)"
| "exec_op (RemoveBind k ht f) kb = (case remove_bind kb k ht f of Inl _ \<Rightarrow> kb | Inr (_, kb') \<Rightarrow> kb')"
| "exec_op (SwapBinds k k') kb = snd (swap_binds kb k k')"
| "exec_op (LoadKeys d) kb = snd (load_keys kb d)"
| "exec_op (Update active ok pressed) kb = fst (outcome_state (update_kb active ok pressed kb))"

inductive reachable :: "string \<Rightarrow> 'cb keyboard_binding \<Rightarrow> bool" for app where
  init: "reachable app (keyboard_binding_init app)"
| step: "reachable app kb \<Longrightarrow> reachable app (exec_op op kb)"

definition kb_inv :: "string \<Rightarrow> 'cb keyboard_binding \<Rightarrow> bool" where
  "kb_inv app kb \<longleftrightarrow> dict_inv (keys kb) \<and> latch_inv (keys kb) \<and> APP_TITLE kb = app"

section \<open>The invariant of the object\<close>

lemma kb_inv_init: "kb_inv app (keyboard_binding_init app)"
  by (simp add: kb_inv_def keyboard_binding_init_def default_keys_def comp_def latch_inv_def new_entry_def)

lemma exec_op_kb_inv:
  assumes inv: "kb_inv app kb"
  shows "kb_inv app (exec_op op kb)"
proof -
  from inv have d: "dict_inv (keys kb)" and l: "latch_inv (keys kb)" and t: "APP_TITLE kb = app"
    by (simp_all add: kb_inv_def)
  note mk = methods_keep_invariants [OF d l] and mt = methods_keep_title [where kb = kb]
  show ?thesis
  proof (cases op)
    case (AddKey k rm tg)
    then show ?thesis using mk(1) mt(1) t by (simp add: kb_inv_def)
  next
    case (ChangeToggle k)
    then show ?thesis using mk(2) mt(2) t by (simp add: kb_inv_def)
  next
    case (RemoveKey k)
    then show ?thesis using mk(3) mt(3) t by (simp add: kb_inv_def)
  next
    case (Remap k to_key)
    then show ?thesis using mk(4) mt(4) t by (simp add: kb_inv_def)
  next
    case (Bind k hf tf tg)
    then show ?thesis using mk(5) mt(5) t by (simp add: kb_inv_def)
  next
    case (BulkBind k hl tls tg)
    then show ?thesis using mk(6) mt(6) t by (simp add: kb_inv_def)
  next
    case (ClearBind k)
    then show ?thesis using mk(7) mt(7) t by (simp add: kb_inv_def)
  next
    case (RemoveBind k ht f)
    show ?thesis
    proof (cases "remove_bind kb k ht f")
      case (Inl err)
      with RemoveBind inv show ?thesis by simp
    next
      case (Inr r)
      obtain b kb' where r: "r = (b, kb')" by fastforce
      with Inr have "remove_bind kb k ht f = Inr (b, kb')" by simp
      with RemoveBind r Inr mk(8) mt(8) t show ?thesis by (simp add: kb_inv_def)
    qed
  next
    case (SwapBinds k k')
    then show ?thesis using mk(9) mt(9) t by (simp add: kb_inv_def)
  next
    case (LoadKeys dat)
    then show ?thesis
      using load_items_invariants [OF d l] load_items_title [of kb] inv
      by (simp add: kb_inv_def load_keys_def split: option.split)
  next
    case (Update active ok pressed)
    let ?kb' = "fst (outcome_state (update_kb active ok pressed kb))"
    have fr: "bindings_of (keys ?kb') = bindings_of (keys kb) \<and> (latch_inv (keys kb) \<longrightarrow> latch_inv (keys ?kb'))"
      using update_loop_frame [of "map fst (keys kb)" "keys kb" ok pressed "[]"]
      by (simp add: update_kb_state)
    have t': "APP_TITLE ?kb' = APP_TITLE kb" by (simp add: update_kb_state)
    have "dict_inv (keys ?kb')" using d fr bindings_of_keys [of "keys ?kb'" "keys kb"] by simp
    with fr l t' t Update show ?thesis
      by (simp add: kb_inv_def)
  qed
qed


section \<open>Properties of the whole object\<close>

text \<open>C1: in every state reachable from the constructor by any sequence of method
  calls and polls (including failing ones and polls in which a callback raised), the
  keys of \<open>self.keys\<close> are distinct, no entry has its latch set while its press flag
  is clear, and the window title is the one given to the constructor.\<close>

theorem reachable_invariant: "reachable app kb \<Longrightarrow> kb_inv app kb"
proof (induction rule: reachable.induct)
  case init
  show ?case by (rule kb_inv_init)
next
  case (step kb op)
  from step.IH show ?case by (rule exec_op_kb_inv)
qed

section \<open>Witnesses\<close>

theorem reachable_invariant_witness:
  "reachable ''Game'' (exec_op (Remap ''a'' ''b'') (keyboard_binding_init ''Game'' :: nat keyboard_binding)) \<and>
   kb_inv ''Game'' (exec_op (Remap ''a'' ''b'') (keyboard_binding_init ''Game'' :: nat keyboard_binding))"
proof -
  have h: "reachable ''Game'' (exec_op (Remap ''a'' ''b'') (keyboard_binding_init ''Game'' :: nat keyboard_binding))"
    by (rule reachable.step [OF reachable.init])
  show ?thesis using h reachable_invariant [OF h] by simp
qed

end
